theory Spec2Isabelle
  imports Main "HOL-Library.Char_ord" "HOL-Library.List_Lexorder"
begin

section \<open>Texts\<close>

text \<open>
  A Python string is a sequence of code points. It is modelled as a \<^typ>\<open>string\<close> with one
  \<^typ>\<open>char\<close> for each code point, the \<^typ>\<open>char\<close> of code \<open>n\<close> being the code point
  \<open>U+00n\<close>: the strings of the model are those whose code points are below 256. The
  character classes of Python (\<^verbatim>\<open>str.isspace\<close> here, \<^verbatim>\<open>\w\<close> and the lower-casing of
  the \<^verbatim>\<open>re\<close> module further down) are given on all of these code points.

  \<^verbatim>\<open>str.isspace\<close>, the white space of \<^verbatim>\<open>strip\<close>: the controls \<open>U+0009\<close> to \<open>U+000D\<close>
  and \<open>U+001C\<close> to \<open>U+001F\<close>, the space, the next-line control \<open>U+0085\<close> and the
  no-break space \<open>U+00A0\<close>.
\<close>

definition isspace :: "char \<Rightarrow> bool" where
  "isspace c = (c \<in> set [CHR 0x09, CHR 0x0A, CHR 0x0B, CHR 0x0C, CHR 0x0D,
                          CHR 0x1C, CHR 0x1D, CHR 0x1E, CHR 0x1F, CHR 0x20,
                          CHR 0x85, CHR 0xA0])"

text \<open>\<^verbatim>\<open>s.strip()\<close>: white space removed at both ends.\<close>

definition py_strip :: "string \<Rightarrow> string" where
  "py_strip s = rev (dropWhile isspace (rev (dropWhile isspace s)))"

text \<open>\<^verbatim>\<open>sep.join(parts)\<close>.\<close>

fun py_join :: "string \<Rightarrow> string list \<Rightarrow> string" where
  "py_join sep [] = []"
| "py_join sep [p] = p"
| "py_join sep (p # q # ps) = p @ sep @ py_join sep (q # ps)"

text \<open>\<^verbatim>\<open>s.split(c)\<close> for a separator of one character: always at least one piece.\<close>

fun py_split :: "char \<Rightarrow> string \<Rightarrow> string list" where
  "py_split c [] = [[]]"
| "py_split c (x # xs) =
     (if x = c then [] # py_split c xs
      else (case py_split c xs of
              [] \<Rightarrow> [[x]]
            | l # ls \<Rightarrow> (x # l) # ls))"

text \<open>\<^verbatim>\<open>needle in s\<close> on strings: \<open>needle\<close> occurs in \<open>s\<close> as a contiguous piece.\<close>

fun starts_with :: "string \<Rightarrow> string \<Rightarrow> bool" where
  "starts_with [] s = True"
| "starts_with (n # ns) [] = False"
| "starts_with (n # ns) (c # cs) = (n = c \<and> starts_with ns cs)"

fun py_in :: "string \<Rightarrow> string \<Rightarrow> bool" where
  "py_in needle [] = (needle = [])"
| "py_in needle (c # cs) = (starts_with needle (c # cs) \<or> py_in needle cs)"

text \<open>\<^verbatim>\<open>s.replace(a, b)\<close> for single characters.\<close>

definition py_replace :: "char \<Rightarrow> char \<Rightarrow> string \<Rightarrow> string" where
  "py_replace a b s = map (\<lambda>c. if c = a then b else c) s"

text \<open>\<^verbatim>\<open>d.get(key, default)\<close> on a dictionary given as an association list.\<close>

definition dict_get :: "(string \<times> 'v) list \<Rightarrow> string \<Rightarrow> 'v \<Rightarrow> 'v" where
  "dict_get d k dflt = (case map_of d k of None \<Rightarrow> dflt | Some v \<Rightarrow> v)"

section \<open>services.py: pure helpers\<close>

text \<open>\<^verbatim>\<open>return [u for u in urls if "arxiv.org" not in u]\<close>\<close>

definition filter_urls :: "string list \<Rightarrow> string list" where
  "filter_urls urls = [u \<leftarrow> urls. \<not> py_in ''arxiv.org'' u]"

text \<open>
  An entry of the experience or education list is a JSON object; the flatteners read its
  members by name with \<^verbatim>\<open>.get(name, "")\<close>, test them for truth and format them in an
  f-string. A member is \<^verbatim>\<open>null\<close> (Python's \<^verbatim>\<open>None\<close>: false, printed as \<^verbatim>\<open>None\<close>), a
  string (true when not empty, printed as it is), or a value of another JSON type, which
  is given by its truth value and by the text that \<^verbatim>\<open>str\<close> makes of it (the \<^verbatim>\<open>"time"\<close>
  list of an entry is such a member).
\<close>

datatype member = JNull | JStr string | JOther bool string

fun truthy :: "member \<Rightarrow> bool" where
  "truthy JNull = False"
| "truthy (JStr s) = (s \<noteq> [])"
| "truthy (JOther b s) = b"

fun str_of :: "member \<Rightarrow> string" where
  "str_of JNull = ''None''"
| "str_of (JStr s) = s"
| "str_of (JOther b s) = s"

type_synonym entry = "(string \<times> member) list"

text \<open>
  The loop of \<^verbatim>\<open>flatten_experience\<close>, with \<open>parts\<close> as the accumulator:
  \<^verbatim>\<open>
    for exp in experience:
        title = exp.get("title", "")
        work = exp.get("work", "")
        if title or work:
            parts.append(f"{title} {work}".strip())
    return ", ".join(parts)
  \<close>
\<close>

fun experience_loop :: "string list \<Rightarrow> entry list \<Rightarrow> string list" where
  "experience_loop parts [] = parts"
| "experience_loop parts (exp # rest) =
     (let title = dict_get exp ''title'' (JStr '''');
          work = dict_get exp ''work'' (JStr '''')
      in if truthy title \<or> truthy work
         then experience_loop (parts @ [py_strip (str_of title @ '' '' @ str_of work)]) rest
         else experience_loop parts rest)"

definition flatten_experience :: "entry list \<Rightarrow> string" where
  "flatten_experience experience = py_join '', '' (experience_loop [] experience)"

fun education_loop :: "string list \<Rightarrow> entry list \<Rightarrow> string list" where
  "education_loop parts [] = parts"
| "education_loop parts (edu # rest) =
     (let degree = dict_get edu ''degree'' (JStr '''');
          major = dict_get edu ''major'' (JStr '''');
          school = dict_get edu ''school'' (JStr '''')
      in if truthy degree \<or> truthy major \<or> truthy school
         then education_loop
                (parts @ [py_strip (str_of degree @ '' '' @ str_of major @ '' ''
                                    @ str_of school)]) rest
         else education_loop parts rest)"

definition flatten_education :: "entry list \<Rightarrow> string" where
  "flatten_education education = py_join '', '' (education_loop [] education)"

section \<open>services.py: text of the CV\<close>

datatype py_error = OSError | UnicodeDecodeError | NotADirectoryError | OverflowError

text \<open>
  What the file system and PyMuPDF do with \<^verbatim>\<open>cv.pdf\<close> is outside the program:
  \<^item> \<open>PdfStatRaises\<close>: \<^verbatim>\<open>pdf_path.exists()\<close> raises, which it does for an error of
    \<^verbatim>\<open>stat\<close> that does not say that the file is missing (\<^verbatim>\<open>PermissionError\<close>, an
    \<^verbatim>\<open>OSError\<close>); the call is outside the \<^verbatim>\<open>try\<close>;
  \<^item> \<open>PdfAbsent\<close>: the file does not exist;
  \<^item> \<open>PdfOpenRaises\<close>: \<^verbatim>\<open>fitz.open\<close> raises;
  \<^item> \<open>PdfPages doc\<close>: the document opens, and \<^verbatim>\<open>page.get_text()\<close> gives a string
    or raises for each of its pages.
\<close>

datatype page = GetTextRaises | PageText string

datatype pdf_file = PdfStatRaises | PdfAbsent | PdfOpenRaises | PdfPages "page list"

text \<open>
  The loop over the pages; \<open>None\<close> when a page raises, which the handler
  \<^verbatim>\<open>except Exception\<close> turns into the result \<^verbatim>\<open>None\<close>.
\<close>

fun pages_loop :: "string list \<Rightarrow> page list \<Rightarrow> string list option" where
  "pages_loop text_parts [] = Some text_parts"
| "pages_loop text_parts (GetTextRaises # rest) = None"
| "pages_loop text_parts (PageText t # rest) =
     pages_loop (if t \<noteq> [] then text_parts @ [t] else text_parts) rest"

text \<open>The result is \<open>Inl\<close> when the function raises, \<open>Inr\<close> what it returns.\<close>

definition extract_pdf_text :: "bool \<Rightarrow> pdf_file \<Rightarrow> py_error + string option" where
  "extract_pdf_text HAS_PYMUPDF pdf =
     (if \<not> HAS_PYMUPDF then Inr None
      else case pdf of
        PdfStatRaises \<Rightarrow> Inl OSError
      | PdfAbsent \<Rightarrow> Inr None
      | PdfOpenRaises \<Rightarrow> Inr None
      | PdfPages doc \<Rightarrow>
          (case pages_loop [] doc of
             None \<Rightarrow> Inr None
           | Some text_parts \<Rightarrow>
               (let full_text = py_join [CHR 0x0A, CHR 0x0A] text_parts;
                    lines = map py_strip (py_split (CHR 0x0A) full_text);
                    cleaned = py_join [CHR 0x0A] [line \<leftarrow> lines. line \<noteq> []]
                in if cleaned \<noteq> [] then Inr (Some cleaned) else Inr None)))"

section \<open>models.py\<close>

type_synonym datetime = nat

text \<open>
  The table row. The columns \<^verbatim>\<open>id\<close> and \<^verbatim>\<open>notes\<close> are the fields \<open>id_col\<close> and
  \<open>notes_col\<close>. The three columns that hold a JSON text (\<^verbatim>\<open>json.dumps\<close> of a list) are
  represented by the list itself. A time stamp is a number.
\<close>

record Candidate =
  id_col :: "int option"
  folder_name :: string
  full_name :: string
  title :: "string option"
  primary_email :: "string option"
  linkedin_url :: "string option"
  display_urls :: "string list option"
  experience :: "entry list option"
  education :: "entry list option"
  experience_text :: "string option"
  education_text :: "string option"
  cv_text :: "string option"
  starred :: bool
  notes_col :: "string option"
  viewed :: bool
  viewed_at :: "datetime option"
  created_at :: datetime
  updated_at :: datetime

text \<open>The request body of the patch; every member is optional.\<close>

datatype CandidateUpdate =
  CandidateUpdate (upd_starred: "bool option") (upd_notes: "string option")
    (upd_viewed: "bool option")

section \<open>services.py: the folder loader\<close>

text \<open>
  A JSON file of a folder, by what \<^verbatim>\<open>open\<close> and \<^verbatim>\<open>json.load\<close> do with it:
  \<^item> \<open>FileMissing\<close>: \<^verbatim>\<open>open\<close> raises \<^verbatim>\<open>FileNotFoundError\<close>;
  \<^item> \<open>FileUnreadable\<close>: \<^verbatim>\<open>open\<close> raises another \<^verbatim>\<open>OSError\<close> (no permission, a
    directory of that name);
  \<^item> \<open>FileUndecodable\<close>: the bytes are not UTF-8, so reading raises
    \<^verbatim>\<open>UnicodeDecodeError\<close> (a \<^verbatim>\<open>ValueError\<close>, not a \<^verbatim>\<open>JSONDecodeError\<close>);
  \<^item> \<open>FileMalformed\<close>: the text is not JSON, \<^verbatim>\<open>json.load\<close> raises
    \<^verbatim>\<open>JSONDecodeError\<close>;
  \<^item> \<open>FileJson d\<close>: the text parses to the document \<open>d\<close>.

  A document has the layout \<^verbatim>\<open>{"data": {...}}\<close> of the two files and is represented by
  its \<^verbatim>\<open>"data"\<close> member, \<open>None\<close> when it has none; so the empty mapping \<^verbatim>\<open>{}\<close> is
  \<open>None\<close>. Each member of \<^verbatim>\<open>"data"\<close> is optional and has the type the loader expects.
\<close>

datatype 'd json_file = FileMissing | FileUnreadable | FileUndecodable | FileMalformed
  | FileJson "'d option"

datatype basic_data =
  BasicData (fullName: "string option") (data_title: "string option")
    (data_experience: "entry list option") (data_education: "entry list option")

datatype personal_data =
  PersonalData (primaryEmail: "string option") (linkedinUrl: "string option")
    (displayUrls: "string list option")

text \<open>
  \<^verbatim>\<open>
    try:
        with open(path, "r", encoding="utf-8") as f:
            return json.load(f)
    except (FileNotFoundError, json.JSONDecodeError):
        return {}
  \<close>
\<close>

fun load_json :: "'d json_file \<Rightarrow> py_error + 'd option" where
  "load_json (FileJson d) = Inr d"
| "load_json FileMissing = Inr None"
| "load_json FileMalformed = Inr None"
| "load_json FileUnreadable = Inl OSError"
| "load_json FileUndecodable = Inl UnicodeDecodeError"

record folder =
  name :: string
  basic_info_json :: "basic_data json_file"
  personal_info_json :: "personal_data json_file"
  cv_pdf :: pdf_file

text \<open>
  The two readings of the clock that the default factories of \<^verbatim>\<open>created_at\<close> and
  \<^verbatim>\<open>updated_at\<close> take when the \<^verbatim>\<open>Candidate\<close> is built are the argument \<open>now\<close>.
  The loader has no handler of its own: what \<open>load_json\<close> or \<open>extract_pdf_text\<close>
  raises leaves it.
\<close>

definition load_candidate_from_folder ::
  "bool \<Rightarrow> datetime \<times> datetime \<Rightarrow> folder \<Rightarrow> py_error + Candidate" where
  "load_candidate_from_folder HAS_PYMUPDF now fld =
     (case load_json (basic_info_json fld) of
        Inl e \<Rightarrow> Inl e
      | Inr basic_info \<Rightarrow>
     (case load_json (personal_info_json fld) of
        Inl e \<Rightarrow> Inl e
      | Inr personal_info \<Rightarrow>
     (let data = (case basic_info of None \<Rightarrow> BasicData None None None None | Some d \<Rightarrow> d);
          personal = (case personal_info of None \<Rightarrow> PersonalData None None None
                      | Some d \<Rightarrow> d);
          full_name_v = (case fullName data of
                           None \<Rightarrow> py_replace (CHR ''-'') (CHR '' '') (name fld)
                         | Some n \<Rightarrow> n);
          urls = (case displayUrls personal of None \<Rightarrow> [] | Some us \<Rightarrow> us);
          filtered_urls = filter_urls urls;
          experience_v = (case data_experience data of None \<Rightarrow> [] | Some es \<Rightarrow> es);
          education_v = (case data_education data of None \<Rightarrow> [] | Some es \<Rightarrow> es)
      in case extract_pdf_text HAS_PYMUPDF (cv_pdf fld) of
           Inl e \<Rightarrow> Inl e
         | Inr cv_text_v \<Rightarrow>
         Inr \<lparr> id_col = None,
               folder_name = name fld,
               full_name = full_name_v,
               title = data_title data,
               primary_email = primaryEmail personal,
               linkedin_url = linkedinUrl personal,
               display_urls = Some filtered_urls,
               experience = Some experience_v,
               education = Some education_v,
               experience_text = Some (flatten_experience experience_v),
               education_text = Some (flatten_education education_v),
               cv_text = cv_text_v,
               starred = False,
               notes_col = None,
               viewed = False,
               viewed_at = None,
               created_at = fst now,
               updated_at = snd now \<rparr>)))"

section \<open>services.py: the disk scan\<close>

text \<open>
  The session is the list of rows of the table, in insertion order. A query sees the rows
  added so far in the same scan (the session flushes before it queries). An added row gets
  the next free primary key.
\<close>

type_synonym store = "Candidate list"

definition next_id :: "store \<Rightarrow> int" where
  "next_id st = fold (\<lambda>c m. case id_col c of None \<Rightarrow> m | Some i \<Rightarrow> max i m) st 0 + 1"

definition session_add :: "store \<Rightarrow> Candidate \<Rightarrow> store" where
  "session_add st c = st @ [c\<lparr>id_col := Some (next_id st)\<rparr>]"

text \<open>
  An entry of the applicants directory is a sub-directory (an applicant folder) or
  something else; a path names nothing, a file, or a directory with its entries.
\<close>

datatype dir_entry = Other string | Subdir folder

fun entry_name :: "dir_entry \<Rightarrow> string" where
  "entry_name (Other n) = n"
| "entry_name (Subdir f) = name f"

datatype node = NoNode | FileNode | DirNode "dir_entry list"

text \<open>What the scan prints: the warning with the path, or the two counts.\<close>

datatype printed = Warning_path_does_not_exist string | Loaded_skipped nat nat

text \<open>
  The body of the \<^verbatim>\<open>for\<close> loop over the sorted entries. The state is the session and the
  two counters; \<open>clock\<close> gives the clock readings taken while the folder of a given name
  is loaded. The loader returns an object, so the test \<^verbatim>\<open>if candidate:\<close> succeeds.
\<close>

fun scan_loop ::
  "bool \<Rightarrow> (string \<Rightarrow> datetime \<times> datetime) \<Rightarrow> store \<times> nat \<times> nat \<Rightarrow> dir_entry list
     \<Rightarrow> py_error + store \<times> nat \<times> nat" where
  "scan_loop HAS_PYMUPDF clock (session, loaded_count, skipped_count) [] =
     Inr (session, loaded_count, skipped_count)"
| "scan_loop HAS_PYMUPDF clock (session, loaded_count, skipped_count) (Other n # rest) =
     scan_loop HAS_PYMUPDF clock (session, loaded_count, skipped_count) rest"
| "scan_loop HAS_PYMUPDF clock (session, loaded_count, skipped_count) (Subdir f # rest) =
     (case find (\<lambda>c. folder_name c = name f) session of
        Some existing \<Rightarrow>
          scan_loop HAS_PYMUPDF clock (session, loaded_count, skipped_count + 1) rest
      | None \<Rightarrow>
          (case load_candidate_from_folder HAS_PYMUPDF (clock (name f)) f of
             Inl e \<Rightarrow> Inl e
           | Inr candidate \<Rightarrow>
               scan_loop HAS_PYMUPDF clock
                 (session_add session candidate, loaded_count + 1, skipped_count) rest))"

text \<open>
  \<open>fs\<close> is the file system, \<open>default_path\<close> the configured applicants path. An exception
  leaves the function before the commit, so the result \<open>Inl\<close> carries no session: the
  table is as it was.
\<close>

definition load_candidates_from_disk ::
  "bool \<Rightarrow> (string \<Rightarrow> node) \<Rightarrow> string \<Rightarrow> (string \<Rightarrow> datetime \<times> datetime) \<Rightarrow> store
     \<Rightarrow> string option \<Rightarrow> py_error + store \<times> printed list" where
  "load_candidates_from_disk HAS_PYMUPDF fs default_path clock session applicants_path =
     (let path = (case applicants_path of Some p \<Rightarrow> p | None \<Rightarrow> default_path)
      in case fs path of
           NoNode \<Rightarrow> Inr (session, [Warning_path_does_not_exist path])
         | FileNode \<Rightarrow> Inl NotADirectoryError
         | DirNode entries \<Rightarrow>
             (case scan_loop HAS_PYMUPDF clock (session, 0, 0) (sort_key entry_name entries) of
                Inl e \<Rightarrow> Inl e
              | Inr (session', loaded_count, skipped_count) \<Rightarrow>
                  Inr (session', [Loaded_skipped loaded_count skipped_count])))"

section \<open>routes.py\<close>

text \<open>
  A handler raises \<^verbatim>\<open>HTTPException\<close> with a status code, or lets another exception
  through, which the framework answers with status 500.
\<close>

datatype http_error = HTTPException nat | Unhandled py_error

text \<open>
  \<^verbatim>\<open>session.get(Candidate, candidate_id)\<close>: the row with that primary key, if there is
  one. The key is bound as a 64-bit integer of the database; for a \<^verbatim>\<open>candidate_id\<close>
  outside that range the binding raises \<^verbatim>\<open>OverflowError\<close>.
\<close>

definition session_get :: "store \<Rightarrow> int \<Rightarrow> py_error + Candidate option" where
  "session_get st candidate_id =
     (if - (2 ^ 63) \<le> candidate_id \<and> candidate_id < 2 ^ 63
      then Inr (find (\<lambda>c. id_col c = Some candidate_id) st)
      else Inl OverflowError)"

text \<open>\<^verbatim>\<open>session.add(candidate); session.commit()\<close> for a row that is in the table.\<close>

fun session_commit :: "Candidate \<Rightarrow> store \<Rightarrow> store" where
  "session_commit c [] = []"
| "session_commit c (r # rs) =
     (if id_col r = id_col c then c # rs else r # session_commit c rs)"

text \<open>
  The two handlers return the new table and the row of the response. The readings of
  \<^verbatim>\<open>utc_now()\<close> are arguments: \<open>t_viewed\<close> for \<^verbatim>\<open>viewed_at\<close>, \<open>t_updated\<close> for
  \<^verbatim>\<open>updated_at\<close>.
\<close>

definition get_candidate ::
  "datetime \<Rightarrow> datetime \<Rightarrow> store \<Rightarrow> int \<Rightarrow> http_error + store \<times> Candidate" where
  "get_candidate t_viewed t_updated session candidate_id =
     (case session_get session candidate_id of
        Inl e \<Rightarrow> Inl (Unhandled e)
      | Inr None \<Rightarrow> Inl (HTTPException 404)
      | Inr (Some candidate) \<Rightarrow>
          if \<not> viewed candidate
          then (let candidate' =
                      candidate\<lparr>viewed := True, viewed_at := Some t_viewed,
                                updated_at := t_updated\<rparr>
                in Inr (session_commit candidate' session, candidate'))
          else Inr (session, candidate))"

definition update_candidate ::
  "datetime \<Rightarrow> datetime \<Rightarrow> store \<Rightarrow> int \<Rightarrow> CandidateUpdate
     \<Rightarrow> http_error + store \<times> Candidate" where
  "update_candidate t_viewed t_updated session candidate_id update =
     (case session_get session candidate_id of
        Inl e \<Rightarrow> Inl (Unhandled e)
      | Inr None \<Rightarrow> Inl (HTTPException 404)
      | Inr (Some candidate) \<Rightarrow>
          (let c1 = (case upd_starred update of
                       Some b \<Rightarrow> candidate\<lparr>starred := b\<rparr>
                     | None \<Rightarrow> candidate);
               c2 = (case upd_notes update of
                       Some n \<Rightarrow> c1\<lparr>notes_col := Some n\<rparr>
                     | None \<Rightarrow> c1);
               c3 = (case upd_viewed update of
                       Some v \<Rightarrow>
                         (let c = c2\<lparr>viewed := v\<rparr>
                          in if v \<and> viewed_at c = None
                             then c\<lparr>viewed_at := Some t_viewed\<rparr> else c)
                     | None \<Rightarrow> c2);
               c4 = c3\<lparr>updated_at := t_updated\<rparr>
           in Inr (session_commit c4 session, c4)))"

text \<open>
  A sequence of calls of the two handlers for one candidate; a call that raises changes
  nothing.
\<close>

datatype api_call = Get datetime datetime | Patch datetime datetime CandidateUpdate

fun api_step :: "int \<Rightarrow> api_call \<Rightarrow> store \<Rightarrow> store" where
  "api_step candidate_id (Get t_viewed t_updated) session =
     (case get_candidate t_viewed t_updated session candidate_id of
        Inl e \<Rightarrow> session | Inr (session', c) \<Rightarrow> session')"
| "api_step candidate_id (Patch t_viewed t_updated update) session =
     (case update_candidate t_viewed t_updated session candidate_id update of
        Inl e \<Rightarrow> session | Inr (session', c) \<Rightarrow> session')"

definition api_run :: "int \<Rightarrow> api_call list \<Rightarrow> store \<Rightarrow> store" where
  "api_run candidate_id calls session = fold (api_step candidate_id) calls session"

subsection \<open>Search: the whole-word filter\<close>

text \<open>
  \<^verbatim>\<open>\w\<close> of a pattern on \<^verbatim>\<open>str\<close>: the underscore and the alphanumeric code points.
  Below 256 these are the digits and letters of ASCII, the letters \<open>U+00AA\<close>, \<open>U+00B5\<close>,
  \<open>U+00BA\<close>, \<open>U+00C0\<close> to \<open>U+00D6\<close>, \<open>U+00D8\<close> to \<open>U+00F6\<close> and \<open>U+00F8\<close> to
  \<open>U+00FF\<close>, and the numeric code points \<open>U+00B2\<close>, \<open>U+00B3\<close>, \<open>U+00B9\<close> and
  \<open>U+00BC\<close> to \<open>U+00BE\<close>.
\<close>

definition is_word :: "char \<Rightarrow> bool" where
  "is_word c =
     (let n = (of_char c :: nat)
      in (48 \<le> n \<and> n \<le> 57) \<or> (65 \<le> n \<and> n \<le> 90) \<or> n = 95 \<or> (97 \<le> n \<and> n \<le> 122)
         \<or> n = 170 \<or> n = 178 \<or> n = 179 \<or> n = 181 \<or> n = 185 \<or> n = 186
         \<or> (188 \<le> n \<and> n \<le> 190) \<or> (192 \<le> n \<and> n \<le> 214) \<or> (216 \<le> n \<and> n \<le> 246)
         \<or> (248 \<le> n \<and> n \<le> 255))"

text \<open>
  Lower-casing: \<open>A\<close> to \<open>Z\<close>, \<open>U+00C0\<close> to \<open>U+00D6\<close> and \<open>U+00D8\<close> to \<open>U+00DE\<close> go to
  the code point 32 higher; every other code point below 256 is its own lower case. With
  \<^verbatim>\<open>re.IGNORECASE\<close> a character of the text matches a character of the pattern when the
  two have the same lower case.
\<close>

definition lower :: "char \<Rightarrow> char" where
  "lower c =
     (let n = (of_char c :: nat)
      in if (65 \<le> n \<and> n \<le> 90) \<or> (192 \<le> n \<and> n \<le> 214) \<or> (216 \<le> n \<and> n \<le> 222)
         then char_of (n + 32) else c)"

text \<open>
  The pattern is \<^verbatim>\<open>\b\<close>, the escaped query (so every character of \<open>q\<close> stands for
  itself), \<^verbatim>\<open>\b\<close>, compiled with \<^verbatim>\<open>re.IGNORECASE\<close>. \<^verbatim>\<open>\b\<close> holds at position \<open>i\<close> of
  \<open>s\<close> when exactly one of the characters before and at \<open>i\<close> is a word character, the
  ends of the string counting as non-word. \<^verbatim>\<open>search\<close> tries every start position.
\<close>

definition at_boundary :: "string \<Rightarrow> nat \<Rightarrow> bool" where
  "at_boundary s i =
     ((0 < i \<and> i \<le> length s \<and> is_word (s ! (i - 1))) \<noteq> (i < length s \<and> is_word (s ! i)))"

definition literal_at :: "string \<Rightarrow> string \<Rightarrow> nat \<Rightarrow> bool" where
  "literal_at q s i =
     (i + length q \<le> length s \<and> map lower (take (length q) (drop i s)) = map lower q)"

definition pattern_at :: "string \<Rightarrow> string \<Rightarrow> nat \<Rightarrow> bool" where
  "pattern_at q s i = (at_boundary s i \<and> literal_at q s i \<and> at_boundary s (i + length q))"

definition word_pattern_search :: "string \<Rightarrow> string \<Rightarrow> bool" where
  "word_pattern_search q s = list_ex (pattern_at q s) [0 ..< Suc (length s)]"

text \<open>
  \<^verbatim>\<open>
    def matches_whole_word(c):
        fields = [c.full_name, c.experience_text, c.education_text, c.title, c.cv_text]
        return any(field and word_pattern.search(field) for field in fields)
    candidates = [c for c in candidates if matches_whole_word(c)]
  \<close>
\<close>

definition search_fields :: "Candidate \<Rightarrow> string option list" where
  "search_fields c =
     [Some (full_name c), experience_text c, education_text c, title c, cv_text c]"

definition matches_whole_word :: "string \<Rightarrow> Candidate \<Rightarrow> bool" where
  "matches_whole_word q c =
     list_ex (\<lambda>field. case field of None \<Rightarrow> False
                      | Some s \<Rightarrow> s \<noteq> [] \<and> word_pattern_search q s)
       (search_fields c)"

definition refine :: "string \<Rightarrow> Candidate list \<Rightarrow> Candidate list" where
  "refine q candidates = [c \<leftarrow> candidates. matches_whole_word q c]"

section \<open>Notions of the specification\<close>

text \<open>A URL of the excluded domain: one that contains the text \<^verbatim>\<open>arxiv.org\<close>.\<close>

definition has_excluded_domain :: "string \<Rightarrow> bool" where
  "has_excluded_domain u = (\<exists>before after. u = before @ ''arxiv.org'' @ after)"

text \<open>
  The texts of the pages of a document, and the normalisation of a text: every line
  trimmed, the empty lines dropped, the order of the lines kept.
\<close>

fun page_texts :: "page list \<Rightarrow> string list" where
  "page_texts [] = []"
| "page_texts (GetTextRaises # rest) = page_texts rest"
| "page_texts (PageText t # rest) = t # page_texts rest"

definition normalized_lines :: "string \<Rightarrow> string list" where
  "normalized_lines s = [line \<leftarrow> map py_strip (py_split (CHR 0x0A) s). line \<noteq> []]"

text \<open>
  The flatteners as the specification words them: a field of a record is present when its
  member is there and true (a string that is not empty); the text of a record is the
  trimmed join, by single spaces, of its present fields in the given order, and the result
  is the join, by comma and space, of the texts of the records that have a present field.
  A member is plain when it is true exactly when its text is not empty, as a string is.
\<close>

definition present_text :: "member \<Rightarrow> string" where
  "present_text m = (if truthy m then str_of m else [])"

definition plain :: "member \<Rightarrow> bool" where
  "plain m = (truthy m = (str_of m \<noteq> []))"

definition spec_record_text :: "string list \<Rightarrow> string" where
  "spec_record_text vals = py_strip (py_join '' '' [v \<leftarrow> vals. v \<noteq> []])"

definition spec_flatten :: "string list \<Rightarrow> entry list \<Rightarrow> string" where
  "spec_flatten keys records =
     py_join '', ''
       (map (\<lambda>r. spec_record_text (map (\<lambda>k. present_text (dict_get r k (JStr ''''))) keys))
          [r \<leftarrow> records. list_ex (\<lambda>k. truthy (dict_get r k (JStr ''''))) keys])"

text \<open>
  A whole-word match of the query \<open>q\<close> in a text, as the glossary of the specification has
  it: the text splits into three pieces, the middle one equal to \<open>q\<close> up to the case of
  letters, and no word character stands next to the middle piece: on each side there is
  the end of the text or a non-word character.
\<close>

definition whole_word_match :: "string \<Rightarrow> string \<Rightarrow> bool" where
  "whole_word_match q s =
     (\<exists>before found after.
        s = before @ found @ after \<and> map lower found = map lower q
        \<and> (before = [] \<or> \<not> is_word (last before))
        \<and> (after = [] \<or> \<not> is_word (hd after)))"

definition whole_word_match_in_field :: "string \<Rightarrow> string option \<Rightarrow> bool" where
  "whole_word_match_in_field q field =
     (case field of None \<Rightarrow> False | Some s \<Rightarrow> whole_word_match q s)"

definition matches_some_field :: "string \<Rightarrow> Candidate \<Rightarrow> bool" where
  "matches_some_field q c =
     (whole_word_match_in_field q (Some (full_name c)) \<or> whole_word_match_in_field q (title c)
      \<or> whole_word_match_in_field q (experience_text c)
      \<or> whole_word_match_in_field q (education_text c)
      \<or> whole_word_match_in_field q (cv_text c))"

text \<open>
  What the pattern of the code asks for instead is a word boundary at each end of the
  middle piece. There is a word boundary between two adjacent pieces when exactly one of
  the two characters that meet there is a word character; the end of the text counts as
  a non-word character.
\<close>

definition word_boundary_between :: "string \<Rightarrow> string \<Rightarrow> bool" where
  "word_boundary_between before after =
     ((before \<noteq> [] \<and> is_word (last before)) \<noteq> (after \<noteq> [] \<and> is_word (hd after)))"

definition whole_word_occurrence :: "string \<Rightarrow> string \<Rightarrow> bool" where
  "whole_word_occurrence q s =
     (\<exists>before found after.
        s = before @ found @ after \<and> map lower found = map lower q
        \<and> word_boundary_between before (found @ after)
        \<and> word_boundary_between (before @ found) after)"

text \<open>An absent field holds no occurrence; the five fields of a candidate are searched.\<close>

definition whole_word_in_field :: "string \<Rightarrow> string option \<Rightarrow> bool" where
  "whole_word_in_field q field =
     (case field of None \<Rightarrow> False | Some s \<Rightarrow> whole_word_occurrence q s)"

definition retained :: "string \<Rightarrow> Candidate \<Rightarrow> bool" where
  "retained q c =
     (whole_word_in_field q (Some (full_name c)) \<or> whole_word_in_field q (title c)
      \<or> whole_word_in_field q (experience_text c) \<or> whole_word_in_field q (education_text c)
      \<or> whole_word_in_field q (cv_text c))"

text \<open>
  The applicant folders of a directory listing, those among them whose name no row of the
  table has, and those whose name some row has.
\<close>

fun subdirs :: "dir_entry list \<Rightarrow> folder list" where
  "subdirs [] = []"
| "subdirs (Other n # es) = subdirs es"
| "subdirs (Subdir f # es) = f # subdirs es"

definition new_folders :: "store \<Rightarrow> dir_entry list \<Rightarrow> folder list" where
  "new_folders st es = [f \<leftarrow> subdirs es. name f \<notin> folder_name ` set st]"

definition known_folders :: "store \<Rightarrow> dir_entry list \<Rightarrow> folder list" where
  "known_folders st es = [f \<leftarrow> subdirs es. name f \<in> folder_name ` set st]"

text \<open>
  A JSON file that \<open>load_json\<close> tolerates: absent, not JSON, or a document. A folder
  is loadable, which is to say that the loader returns on it, when its two JSON files are
  tolerated and the existence check of its \<^verbatim>\<open>cv.pdf\<close> does not raise (the check is
  made only with PyMuPDF installed).
\<close>

definition readable :: "'d json_file \<Rightarrow> bool" where
  "readable jf = (jf \<noteq> FileUnreadable \<and> jf \<noteq> FileUndecodable)"

definition loadable :: "bool \<Rightarrow> folder \<Rightarrow> bool" where
  "loadable HAS_PYMUPDF f =
     (readable (basic_info_json f) \<and> readable (personal_info_json f)
      \<and> \<not> (HAS_PYMUPDF \<and> cv_pdf f = PdfStatRaises))"

section \<open>Example data\<close>

text \<open>The folder of the test suite; its \<^verbatim>\<open>cv.pdf\<close> is not a PDF.\<close>

definition test_folder :: folder where
  "test_folder =
     \<lparr> name = ''Test-Candidate'',
       basic_info_json = FileJson (Some (BasicData
         (Some ''Test Candidate'') (Some ''Engineer at TestCorp'')
         (Some [[(''title'', JStr ''Engineer''), (''work'', JStr ''TestCorp''),
                 (''time'', JOther True ''['2022-01', '2024-01']'')]])
         (Some [[(''degree'', JStr ''BS''), (''major'', JStr ''CS''),
                 (''school'', JStr ''Test University''),
                 (''time'', JOther True ''['2018-09', '2022-05']'')]]))),
       personal_info_json = FileJson (Some (PersonalData
         (Some ''test@example.com'') (Some ''https://linkedin.com/in/test'')
         (Some [''https://github.com/test'', ''https://arxiv.org/abs/1234'']))),
       cv_pdf = PdfOpenRaises \<rparr>"

definition test_candidate :: Candidate where
  "test_candidate =
     \<lparr> id_col = None,
       folder_name = ''Test-Candidate'',
       full_name = ''Test Candidate'',
       title = Some ''Engineer at TestCorp'',
       primary_email = Some ''test@example.com'',
       linkedin_url = Some ''https://linkedin.com/in/test'',
       display_urls = Some [''https://github.com/test''],
       experience = Some [[(''title'', JStr ''Engineer''), (''work'', JStr ''TestCorp''),
                           (''time'', JOther True ''['2022-01', '2024-01']'')]],
       education = Some [[(''degree'', JStr ''BS''), (''major'', JStr ''CS''),
                          (''school'', JStr ''Test University''),
                          (''time'', JOther True ''['2018-09', '2022-05']'')]],
       experience_text = Some ''Engineer TestCorp'',
       education_text = Some ''BS CS Test University'',
       cv_text = None,
       starred = False,
       notes_col = None,
       viewed = False,
       viewed_at = None,
       created_at = 1,
       updated_at = 2 \<rparr>"

definition stored_candidate :: Candidate where
  "stored_candidate = test_candidate\<lparr>id_col := Some 1\<rparr>"

text \<open>A file system in which no path exists.\<close>

definition no_path :: "string \<Rightarrow> node" where
  "no_path p = NoNode"

text \<open>A row whose title is the name of a programming language.\<close>

definition cpp_candidate :: Candidate where
  "cpp_candidate =
     \<lparr> id_col = Some 3,
       folder_name = ''Dana-Lee'',
       full_name = ''Dana Lee'',
       title = Some ''C++'',
       primary_email = None,
       linkedin_url = None,
       display_urls = None,
       experience = None,
       education = None,
       experience_text = Some ''Compiler Engineer Ericsson'',
       education_text = None,
       cv_text = None,
       starred = False,
       notes_col = None,
       viewed = False,
       viewed_at = None,
       created_at = 1,
       updated_at = 1 \<rparr>"

text \<open>A row of the fixtures of the test suite.\<close>

definition bob_jones :: Candidate where
  "bob_jones =
     \<lparr> id_col = Some 2,
       folder_name = ''Bob-Jones'',
       full_name = ''Bob Jones'',
       title = Some ''Data Scientist at Meta'',
       primary_email = Some ''bob@example.com'',
       linkedin_url = None,
       display_urls = None,
       experience = None,
       education = None,
       experience_text = Some ''Data Scientist Meta'',
       education_text = Some ''MS Statistics Berkeley'',
       cv_text = None,
       starred = False,
       notes_col = None,
       viewed = False,
       viewed_at = None,
       created_at = 1,
       updated_at = 1 \<rparr>"

text \<open>
  An applicants directory: the folder of the test suite, a plain file, and a folder
  without \<^verbatim>\<open>basic_info.json\<close> and with a \<^verbatim>\<open>personal_info.json\<close> that is not JSON.
\<close>

definition missing_files_folder :: folder where
  "missing_files_folder =
     \<lparr> name = ''Jane-Doe'', basic_info_json = FileMissing,
       personal_info_json = FileMalformed, cv_pdf = PdfAbsent \<rparr>"

definition applicants_dir :: "dir_entry list" where
  "applicants_dir = [Subdir test_folder, Other ''README.txt'', Subdir missing_files_folder]"

definition applicants_fs :: "string \<Rightarrow> node" where
  "applicants_fs p = (if p = ''applicants'' then DirNode applicants_dir else NoNode)"

text \<open>The folder of the test suite with a \<^verbatim>\<open>basic_info.json\<close> saved as UTF-16.\<close>

definition utf16_folder :: folder where
  "utf16_folder = test_folder\<lparr>basic_info_json := FileUndecodable\<rparr>"

text \<open>A clock that stands still, and the row that the scan makes of the second folder.\<close>

definition fixed_clock :: "string \<Rightarrow> datetime \<times> datetime" where
  "fixed_clock n = (1, 2)"

definition jane_doe_row :: Candidate where
  "jane_doe_row =
     \<lparr> id_col = Some 2,
       folder_name = ''Jane-Doe'',
       full_name = ''Jane Doe'',
       title = None,
       primary_email = None,
       linkedin_url = None,
       display_urls = Some [],
       experience = Some [],
       education = Some [],
       experience_text = Some '''',
       education_text = Some '''',
       cv_text = None,
       starred = False,
       notes_col = None,
       viewed = False,
       viewed_at = None,
       created_at = 1,
       updated_at = 2 \<rparr>"

section \<open>Substrings and the URL filter\<close>

lemma starts_with_iff: "starts_with n s \<longleftrightarrow> (\<exists>after. s = n @ after)"
  by (induction n s rule: starts_with.induct) auto

lemma py_in_iff: "py_in n s \<longleftrightarrow> (\<exists>before after. s = before @ n @ after)"
proof (induction s)
  case Nil
  show ?case by auto
next
  case (Cons c cs)
  show ?case
  proof
    assume "py_in n (c # cs)"
    then consider "starts_with n (c # cs)" | "py_in n cs" by auto
    then show "\<exists>before after. c # cs = before @ n @ after"
    proof cases
      case 1
      then obtain after where "c # cs = n @ after" using starts_with_iff by blast
      then have "c # cs = [] @ n @ after" by simp
      then show ?thesis by blast
    next
      case 2
      then obtain before after where "cs = before @ n @ after" using Cons.IH by blast
      then have "c # cs = (c # before) @ n @ after" by simp
      then show ?thesis by blast
    qed
  next
    assume "\<exists>before after. c # cs = before @ n @ after"
    then obtain before after where e: "c # cs = before @ n @ after" by blast
    show "py_in n (c # cs)"
    proof (cases before)
      case Nil
      with e have "starts_with n (c # cs)" using starts_with_iff by auto
      then show ?thesis by simp
    next
      case (Cons b bs)
      with e have "cs = bs @ n @ after" by simp
      then have "py_in n cs" using Cons.IH by blast
      then show ?thesis by simp
    qed
  qed
qed

lemma loader_display_urls:
  "load_candidate_from_folder hp now fld = Inr c \<Longrightarrow>
     \<exists>us. display_urls c = Some (filter_urls us)"
  by (auto simp: load_candidate_from_folder_def Let_def split: sum.splits)

lemma test_folder_loaded:
  "load_candidate_from_folder True (1, 2) test_folder = Inr test_candidate"
  by (simp add: load_candidate_from_folder_def test_folder_def test_candidate_def Let_def
      filter_urls_def flatten_experience_def flatten_education_def dict_get_def
      py_strip_def isspace_def extract_pdf_text_def)

text \<open>
  C7. \<open>filter_urls\<close> keeps, in their order and as often as they occur, exactly the entries
  that do not contain \<^verbatim>\<open>arxiv.org\<close>; it is a total function and maps the empty list to
  the empty list; and the \<^verbatim>\<open>display_urls\<close> of a candidate that the folder loader returns
  hold no URL with \<^verbatim>\<open>arxiv.org\<close> in it.
\<close>

theorem filter_urls_removes_excluded_domain:
  "filter_urls urls = [u \<leftarrow> urls. \<not> has_excluded_domain u]
   \<and> filter_urls [] = []
   \<and> (load_candidate_from_folder hp now fld = Inr c \<longrightarrow>
        (\<exists>shown. display_urls c = Some shown
                \<and> (\<forall>u \<in> set shown. \<not> has_excluded_domain u)))"
proof -
  have eq: "\<And>us. filter_urls us = [u \<leftarrow> us. \<not> has_excluded_domain u]"
    by (simp add: filter_urls_def has_excluded_domain_def py_in_iff)
  have "\<exists>shown. display_urls c = Some shown \<and> (\<forall>u \<in> set shown. \<not> has_excluded_domain u)"
    if "load_candidate_from_folder hp now fld = Inr c"
  proof -
    from loader_display_urls [OF that]
    obtain us where "display_urls c = Some (filter_urls us)" by blast
    then show ?thesis by (simp add: eq)
  qed
  with eq show ?thesis by simp
qed

theorem filter_urls_removes_excluded_domain_witness:
  "load_candidate_from_folder True (1, 2) test_folder = Inr test_candidate
   \<and> display_urls test_candidate = Some [''https://github.com/test'']
   \<and> \<not> has_excluded_domain ''https://github.com/test''
   \<and> has_excluded_domain ''https://arxiv.org/abs/1234''"
proof -
  have shown: "display_urls test_candidate = Some [''https://github.com/test'']"
    by (simp add: test_candidate_def)
  have "py_in ''arxiv.org'' ''https://arxiv.org/abs/1234''" by simp
  then have bad: "has_excluded_domain ''https://arxiv.org/abs/1234''"
    by (simp add: has_excluded_domain_def py_in_iff)
  from filter_urls_removes_excluded_domain
         [of "[]" True "(1, 2)" test_folder test_candidate] test_folder_loaded shown
  have "\<not> has_excluded_domain ''https://github.com/test''" by simp
  with test_folder_loaded shown bad show ?thesis by simp
qed

section \<open>The text of the CV\<close>

lemma py_join_Nil_iff:
  "[] \<notin> set parts \<Longrightarrow> py_join sep parts = [] \<longleftrightarrow> parts = []"
  by (induction sep parts rule: py_join.induct) auto

lemma pages_loop_None_iff:
  "pages_loop text_parts doc = None \<longleftrightarrow> GetTextRaises \<in> set doc"
  by (induction text_parts doc rule: pages_loop.induct) auto

lemma pages_loop_Some:
  "GetTextRaises \<notin> set doc \<Longrightarrow>
     pages_loop text_parts doc = Some (text_parts @ [t \<leftarrow> page_texts doc. t \<noteq> []])"
  by (induction text_parts doc rule: pages_loop.induct) auto

lemma extract_pdf_text_success:
  assumes "GetTextRaises \<notin> set doc"
  shows "extract_pdf_text True (PdfPages doc) =
           (let kept = normalized_lines
                         (py_join [CHR 0x0A, CHR 0x0A] [t \<leftarrow> page_texts doc. t \<noteq> []])
            in if kept = [] then Inr None else Inr (Some (py_join [CHR 0x0A] kept)))"
proof -
  let ?kept = "normalized_lines (py_join [CHR 0x0A, CHR 0x0A] [t \<leftarrow> page_texts doc. t \<noteq> []])"
  have "[] \<notin> set ?kept"
    by (simp add: normalized_lines_def)
  then have "py_join [CHR 0x0A] ?kept = [] \<longleftrightarrow> ?kept = []"
    by (rule py_join_Nil_iff)
  then show ?thesis
    using pages_loop_Some [OF assms, of "[]"]
    by (simp add: extract_pdf_text_def normalized_lines_def Let_def)
qed

lemma extract_pdf_text_not_empty: "extract_pdf_text hp pdf \<noteq> Inr (Some [])"
  by (auto simp: extract_pdf_text_def Let_def split: pdf_file.splits option.splits)

text \<open>
  Where the extractor does what the specification says: it returns \<open>None\<close> when PyMuPDF
  is not installed, when the file does not exist, and when opening the file or reading a
  page raises; it never returns the empty string; and when nothing raises, the result is
  the non-empty trimmed lines of the pages' text, in their order, joined by newlines, or
  \<open>None\<close> when no such line is left.
\<close>

lemma extract_pdf_text_handled:
  "extract_pdf_text False pdf = Inr None
   \<and> extract_pdf_text hp PdfAbsent = Inr None
   \<and> extract_pdf_text hp PdfOpenRaises = Inr None
   \<and> (GetTextRaises \<in> set doc \<longrightarrow> extract_pdf_text hp (PdfPages doc) = Inr None)
   \<and> extract_pdf_text hp pdf \<noteq> Inr (Some [])
   \<and> (GetTextRaises \<notin> set doc \<longrightarrow>
        extract_pdf_text True (PdfPages doc) =
          (let kept = normalized_lines
                        (py_join [CHR 0x0A, CHR 0x0A] [t \<leftarrow> page_texts doc. t \<noteq> []])
           in if kept = [] then Inr None else Inr (Some (py_join [CHR 0x0A] kept))))"
proof -
  have 1: "extract_pdf_text False pdf = Inr None" by (simp add: extract_pdf_text_def)
  have 2: "extract_pdf_text hp PdfAbsent = Inr None" by (simp add: extract_pdf_text_def)
  have 3: "extract_pdf_text hp PdfOpenRaises = Inr None" by (simp add: extract_pdf_text_def)
  have 4: "extract_pdf_text hp (PdfPages doc) = Inr None" if "GetTextRaises \<in> set doc"
    using that pages_loop_None_iff [of "[]" doc] by (simp add: extract_pdf_text_def)
  from 1 2 3 4 extract_pdf_text_not_empty extract_pdf_text_success show ?thesis by blast
qed

text \<open>
  Some documents: lines are trimmed and empty ones dropped; a document whose only text is
  a no-break space has no text; a page that raises gives no text.
\<close>

lemma extract_pdf_text_examples:
  "extract_pdf_text True (PdfPages [PageText '' a  '', PageText '''', PageText ''  ''])
     = Inr (Some ''a'')
   \<and> extract_pdf_text True (PdfPages [PageText ''  '', PageText '''']) = Inr None
   \<and> extract_pdf_text True (PdfPages [PageText [CHR 0xA0]]) = Inr None
   \<and> extract_pdf_text True (PdfPages [PageText ''a'', GetTextRaises]) = Inr None"
  by (simp add: extract_pdf_text_def py_strip_def isspace_def)

text \<open>
  C6. The property fails where the existence check raises. The test
  \<^verbatim>\<open>pdf_path.exists()\<close> stands before the \<^verbatim>\<open>try\<close>, so the error of a \<^verbatim>\<open>cv.pdf\<close> that
  cannot be examined leaves \<open>extract_pdf_text\<close>, whereas the error of a \<^verbatim>\<open>cv.pdf\<close> that
  cannot be opened, inside the \<^verbatim>\<open>try\<close>, gives \<open>None\<close>.
\<close>

theorem extract_pdf_text_raises_on_stat_error:
  "extract_pdf_text True PdfStatRaises = Inl OSError
   \<and> extract_pdf_text True PdfOpenRaises = Inr None"
  by (simp add: extract_pdf_text_def)

section \<open>The missing applicants directory\<close>

text \<open>
  C8. When the applicants path (the argument, or the configured path when there is no
  argument) does not exist, \<open>load_candidates_from_disk\<close> returns normally, the table is
  as it was, and all it does is print the warning.
\<close>

theorem missing_root_no_op:
  "(fs p = NoNode \<longrightarrow>
      load_candidates_from_disk hp fs default_path clock session (Some p) =
        Inr (session, [Warning_path_does_not_exist p]))
   \<and> (fs default_path = NoNode \<longrightarrow>
      load_candidates_from_disk hp fs default_path clock session None =
        Inr (session, [Warning_path_does_not_exist default_path]))"
  by (simp add: load_candidates_from_disk_def)

theorem missing_root_no_op_witness:
  "load_candidates_from_disk True no_path ''applicants'' (\<lambda>n. (1, 2)) [stored_candidate]
       (Some ''elsewhere'')
     = Inr ([stored_candidate], [Warning_path_does_not_exist ''elsewhere''])
   \<and> load_candidates_from_disk True no_path ''applicants'' (\<lambda>n. (1, 2)) [stored_candidate] None
     = Inr ([stored_candidate], [Warning_path_does_not_exist ''applicants''])"
  using missing_root_no_op
          [of no_path "''elsewhere''" True "''applicants''" "\<lambda>n. (1, 2)" "[stored_candidate]"]
  by (simp add: no_path_def)

section \<open>The handlers of the review API\<close>

lemma find_id: "find (\<lambda>c. id_col c = Some i) st = Some c \<Longrightarrow> id_col c = Some i"
  by (induction st) (auto split: if_splits)

lemma find_commit:
  "find (\<lambda>c. id_col c = Some i) st = Some c \<Longrightarrow> id_col c' = Some i \<Longrightarrow>
     find (\<lambda>c. id_col c = Some i) (session_commit c' st) = Some c'"
  by (induction st) (auto split: if_splits)

lemma session_get_id: "session_get st i = Inr (Some c) \<Longrightarrow> id_col c = Some i"
  unfolding session_get_def using find_id by (auto split: if_splits)

lemma session_get_commit:
  "session_get st i = Inr (Some c) \<Longrightarrow> id_col c' = Some i \<Longrightarrow>
     session_get (session_commit c' st) i = Inr (Some c')"
  unfolding session_get_def using find_commit by (auto split: if_splits)

text \<open>
  C9. For a candidate that is in the table and not viewed, \<open>get_candidate\<close> returns it
  with \<open>viewed\<close> true and \<open>viewed_at\<close> the reading of the clock, and stores it so; a
  further call returns the same row and leaves the table, and with it \<open>viewed_at\<close>, as
  it is. For a candidate that is already viewed the call changes nothing.
\<close>

theorem get_candidate_stamps_first_view:
  assumes "session_get st i = Inr (Some c)"
  shows "(\<not> viewed c \<longrightarrow>
            (\<exists>st' c'. get_candidate t1 t2 st i = Inr (st', c')
               \<and> viewed c' \<and> viewed_at c' = Some t1
               \<and> session_get st' i = Inr (Some c')
               \<and> get_candidate t3 t4 st' i = Inr (st', c')))
         \<and> (viewed c \<longrightarrow> get_candidate t1 t2 st i = Inr (st, c))"
proof -
  let ?c' = "c\<lparr>viewed := True, viewed_at := Some t1, updated_at := t2\<rparr>"
  let ?st' = "session_commit ?c' st"
  have idc: "id_col ?c' = Some i" using session_get_id [OF assms] by simp
  have stored: "session_get ?st' i = Inr (Some ?c')"
    using session_get_commit [OF assms idc] .
  have first: "get_candidate t1 t2 st i = Inr (?st', ?c')" if "\<not> viewed c"
    using that assms by (simp add: get_candidate_def Let_def)
  have second: "get_candidate t3 t4 ?st' i = Inr (?st', ?c')"
    using stored by (simp add: get_candidate_def)
  have already: "get_candidate t1 t2 st i = Inr (st, c)" if "viewed c"
    using that assms by (simp add: get_candidate_def)
  from first second stored already show ?thesis by auto
qed

theorem get_candidate_stamps_first_view_witness:
  "get_candidate 10 11 [stored_candidate] 1 =
     Inr ([stored_candidate\<lparr>viewed := True, viewed_at := Some 10, updated_at := 11\<rparr>],
          stored_candidate\<lparr>viewed := True, viewed_at := Some 10, updated_at := 11\<rparr>)
   \<and> get_candidate 20 21
        [stored_candidate\<lparr>viewed := True, viewed_at := Some 10, updated_at := 11\<rparr>] 1 =
     Inr ([stored_candidate\<lparr>viewed := True, viewed_at := Some 10, updated_at := 11\<rparr>],
          stored_candidate\<lparr>viewed := True, viewed_at := Some 10, updated_at := 11\<rparr>)"
proof -
  let ?c' = "stored_candidate\<lparr>viewed := True, viewed_at := Some 10, updated_at := 11\<rparr>"
  have g: "session_get [stored_candidate] 1 = Inr (Some stored_candidate)"
    by (simp add: session_get_def stored_candidate_def)
  have nv: "\<not> viewed stored_candidate"
    by (simp add: stored_candidate_def test_candidate_def)
  from get_candidate_stamps_first_view [OF g, of 10 11 20 21] nv
  obtain st' c' where r: "get_candidate 10 11 [stored_candidate] 1 = Inr (st', c')"
     and s: "get_candidate 20 21 st' 1 = Inr (st', c')" by blast
  have e: "get_candidate 10 11 [stored_candidate] 1 = Inr ([?c'], ?c')"
    using nv by (simp add: get_candidate_def session_get_def stored_candidate_def Let_def)
  have "Inr (st', c') = (Inr ([?c'], ?c') :: http_error + store \<times> Candidate)"
    by (rule trans [OF sym [OF r] e])
  then have "st' = [?c']" and "c' = ?c'" by simp_all
  with s have "get_candidate 20 21 [?c'] 1 = Inr ([?c'], ?c')" by simp
  with e show ?thesis by (rule conjI)
qed

text \<open>
  C10. A patch that succeeds returns the stored row of the candidate, and that row differs
  from the row before at most in \<open>starred\<close>, \<open>notes\<close>, \<open>viewed\<close>, \<open>viewed_at\<close> and
  \<open>updated_at\<close>: the thirteen other fields are as they were.
\<close>

theorem update_candidate_frame:
  assumes "update_candidate t1 t2 st i upd = Inr (st', c')"
  shows "\<exists>c. session_get st i = Inr (Some c) \<and> session_get st' i = Inr (Some c')
           \<and> id_col c' = id_col c
           \<and> folder_name c' = folder_name c
           \<and> full_name c' = full_name c
           \<and> title c' = title c
           \<and> primary_email c' = primary_email c
           \<and> linkedin_url c' = linkedin_url c
           \<and> display_urls c' = display_urls c
           \<and> experience c' = experience c
           \<and> education c' = education c
           \<and> experience_text c' = experience_text c
           \<and> education_text c' = education_text c
           \<and> cv_text c' = cv_text c
           \<and> created_at c' = created_at c"
proof -
  from assms obtain c where g: "session_get st i = Inr (Some c)"
    by (auto simp: update_candidate_def split: sum.splits option.splits)
  from assms g have c': "c' = c\<lparr>starred := starred c', notes_col := notes_col c',
      viewed := viewed c', viewed_at := viewed_at c', updated_at := updated_at c'\<rparr>"
    and st': "st' = session_commit c' st"
    by (auto simp: update_candidate_def Let_def split: sum.splits option.splits if_splits)
  have idc: "id_col c' = Some i" using session_get_id [OF g] by (subst c') simp
  have "session_get st' i = Inr (Some c')"
    unfolding st' using session_get_commit [OF g idc] .
  moreover have "id_col c' = id_col c" "folder_name c' = folder_name c"
    "full_name c' = full_name c" "title c' = title c" "primary_email c' = primary_email c"
    "linkedin_url c' = linkedin_url c" "display_urls c' = display_urls c"
    "experience c' = experience c" "education c' = education c"
    "experience_text c' = experience_text c" "education_text c' = education_text c"
    "cv_text c' = cv_text c" "created_at c' = created_at c"
    by (subst c', simp)+
  ultimately show ?thesis using g by blast
qed

theorem update_candidate_frame_witness:
  "update_candidate 10 11 [stored_candidate] 1
       (CandidateUpdate (Some True) (Some ''Interview scheduled'') (Some True))
     = Inr ([stored_candidate\<lparr>starred := True, notes_col := Some ''Interview scheduled'',
                viewed := True, viewed_at := Some 10, updated_at := 11\<rparr>],
            stored_candidate\<lparr>starred := True, notes_col := Some ''Interview scheduled'',
                viewed := True, viewed_at := Some 10, updated_at := 11\<rparr>)
   \<and> full_name (stored_candidate\<lparr>starred := True, notes_col := Some ''Interview scheduled'',
                viewed := True, viewed_at := Some 10, updated_at := 11\<rparr>) = ''Test Candidate''"
proof -
  let ?c' = "stored_candidate\<lparr>starred := True, notes_col := Some ''Interview scheduled'',
                viewed := True, viewed_at := Some 10, updated_at := 11\<rparr>"
  have e: "update_candidate 10 11 [stored_candidate] 1
             (CandidateUpdate (Some True) (Some ''Interview scheduled'') (Some True))
           = Inr ([?c'], ?c')"
    by (simp add: update_candidate_def session_get_def stored_candidate_def
        test_candidate_def Let_def)
  have g: "session_get [stored_candidate] 1 = Inr (Some stored_candidate)"
    by (simp add: session_get_def stored_candidate_def)
  from update_candidate_frame [OF e] g
  have "full_name ?c' = full_name stored_candidate" by auto
  then have "full_name ?c' = ''Test Candidate''"
    by (simp add: stored_candidate_def test_candidate_def)
  with e show ?thesis by simp
qed

text \<open>
  What holds of \<open>viewed_at\<close>: a patch that finds the stamp set leaves it as it is, a
  retrieval never clears it, and so no sequence of calls clears it.
\<close>

lemma update_candidate_keeps_stamp:
  assumes "update_candidate t1 t2 st i upd = Inr (st', c')" "session_get st i = Inr (Some c)"
    "viewed_at c = Some t"
  shows "viewed_at c' = Some t"
  using assms by (auto simp: update_candidate_def Let_def split: sum.splits option.splits if_splits)

lemma get_candidate_never_clears:
  assumes "get_candidate t1 t2 st i = Inr (st', c')" "session_get st i = Inr (Some c)"
    "viewed_at c \<noteq> None"
  shows "viewed_at c' \<noteq> None"
  using assms by (auto simp: get_candidate_def Let_def split: sum.splits option.splits if_splits)

lemma update_candidate_stored:
  assumes "update_candidate t1 t2 st i upd = Inr (st', c')"
  shows "session_get st' i = Inr (Some c')"
proof -
  from assms obtain c where g: "session_get st i = Inr (Some c)"
    by (auto simp: update_candidate_def split: sum.splits option.splits)
  from assms g have "id_col c' = id_col c" and st': "st' = session_commit c' st"
    by (auto simp: update_candidate_def Let_def split: sum.splits option.splits if_splits)
  then have "id_col c' = Some i" using session_get_id [OF g] by simp
  from session_get_commit [OF g this] show ?thesis by (simp add: st')
qed

lemma api_step_never_clears:
  assumes "session_get st i = Inr (Some c)" "viewed_at c \<noteq> None"
  shows "\<exists>c'. session_get (api_step i call st) i = Inr (Some c') \<and> viewed_at c' \<noteq> None"
proof (cases call)
  case (Get t1 t2)
  show ?thesis
  proof (cases "viewed c")
    case True
    with assms Get show ?thesis by (simp add: get_candidate_def)
  next
    case False
    let ?c' = "c\<lparr>viewed := True, viewed_at := Some t1, updated_at := t2\<rparr>"
    have "id_col ?c' = Some i" using session_get_id [OF assms(1)] by simp
    from session_get_commit [OF assms(1) this] False assms(1) Get
    show ?thesis by (simp add: get_candidate_def Let_def)
  qed
next
  case (Patch t1 t2 upd)
  obtain st' c' where r: "update_candidate t1 t2 st i upd = Inr (st', c')"
    using assms(1) by (auto simp: update_candidate_def Let_def)
  from update_candidate_stored [OF r] have g: "session_get st' i = Inr (Some c')" .
  from assms(2) obtain t where "viewed_at c = Some t" by auto
  from update_candidate_keeps_stamp [OF r assms(1) this] have "viewed_at c' \<noteq> None" by simp
  with g r Patch show ?thesis by simp
qed

lemma api_run_never_clears:
  assumes "session_get st i = Inr (Some c)" "viewed_at c \<noteq> None"
  shows "\<exists>c'. session_get (api_run i calls st) i = Inr (Some c') \<and> viewed_at c' \<noteq> None"
  using assms
proof (induction calls arbitrary: st c)
  case Nil
  then show ?case by (simp add: api_run_def)
next
  case (Cons call calls)
  from api_step_never_clears [OF Cons.prems, of call] obtain c1 where
    "session_get (api_step i call st) i = Inr (Some c1)" "viewed_at c1 \<noteq> None" by blast
  from Cons.IH [OF this] show ?case by (simp add: api_run_def)
qed

text \<open>
  C1. The property fails on \<open>get_candidate\<close>, which tests \<open>viewed\<close> alone before it stamps.
  A first retrieval at time 10 sets \<open>viewed_at\<close> to 10; a patch that sets \<open>viewed\<close> to
  false keeps the 10; the next retrieval, at time 30, overwrites it with 30.
\<close>

theorem get_candidate_restamps_viewed_at:
  "map viewed_at (api_run 1 [Get 10 11] [stored_candidate]) = [Some 10]
   \<and> map viewed_at
       (api_run 1 [Get 10 11, Patch 20 21 (CandidateUpdate None None (Some False))]
          [stored_candidate]) = [Some 10]
   \<and> map viewed_at
       (api_run 1 [Get 10 11, Patch 20 21 (CandidateUpdate None None (Some False)), Get 30 31]
          [stored_candidate]) = [Some 30]"
  by (simp add: api_run_def get_candidate_def update_candidate_def session_get_def
      stored_candidate_def test_candidate_def Let_def)

section \<open>The flatteners\<close>

lemma isspace_space: "isspace (CHR '' '')"
  by (simp add: isspace_def)

lemma py_strip_spaces_left:
  "\<forall>x \<in> set t. isspace x \<Longrightarrow> py_strip (t @ s) = py_strip s"
  by (simp add: py_strip_def dropWhile_append)

lemma py_strip_spaces_right:
  assumes "\<forall>x \<in> set t. isspace x"
  shows "py_strip (s @ t) = py_strip s"
proof (cases "\<forall>x \<in> set s. isspace x")
  case True
  with assms have "dropWhile isspace (s @ t) = []" and "dropWhile isspace s = []"
    unfolding dropWhile_eq_Nil_conv by auto
  then show ?thesis by (simp only: py_strip_def)
next
  case False
  then have "dropWhile isspace (s @ t) = dropWhile isspace s @ t"
    by (auto simp: dropWhile_append)
  with assms show ?thesis by (simp add: py_strip_def dropWhile_append)
qed

lemma experience_loop_closed:
  "experience_loop parts es =
     parts @ map (\<lambda>r. py_strip (str_of (dict_get r ''title'' (JStr '''')) @ '' ''
                                 @ str_of (dict_get r ''work'' (JStr ''''))))
               [r \<leftarrow> es. truthy (dict_get r ''title'' (JStr ''''))
                          \<or> truthy (dict_get r ''work'' (JStr ''''))]"
  by (induction es arbitrary: parts) (simp_all add: Let_def)

lemma education_loop_closed:
  "education_loop parts es =
     parts @ map (\<lambda>r. py_strip (str_of (dict_get r ''degree'' (JStr '''')) @ '' ''
                                 @ str_of (dict_get r ''major'' (JStr '''')) @ '' ''
                                 @ str_of (dict_get r ''school'' (JStr ''''))))
               [r \<leftarrow> es. truthy (dict_get r ''degree'' (JStr ''''))
                          \<or> truthy (dict_get r ''major'' (JStr ''''))
                          \<or> truthy (dict_get r ''school'' (JStr ''''))]"
  by (induction es arbitrary: parts) (simp_all add: Let_def)

lemma experience_text_spec:
  "py_strip (t @ CHR '' '' # w) = spec_record_text [t, w]"
proof -
  have l: "py_strip ('' '' @ w) = py_strip w"
    using py_strip_spaces_left [of "'' ''" w] by (simp add: isspace_space)
  have r: "py_strip (t @ '' '') = py_strip t"
    using py_strip_spaces_right [of "'' ''" t] by (simp add: isspace_space)
  show ?thesis
    using l r by (cases "t = []"; cases "w = []") (simp_all add: spec_record_text_def)
qed

lemma education_text_spec:
  assumes "m = [] \<longrightarrow> d = [] \<or> s = []"
  shows "py_strip (d @ CHR '' '' # m @ CHR '' '' # s) = spec_record_text [d, m, s]"
proof -
  have l1: "\<And>x. py_strip ('' '' @ x) = py_strip x"
    using py_strip_spaces_left [of "'' ''"] by (simp add: isspace_space)
  have l2: "\<And>x. py_strip (''  '' @ x) = py_strip x"
    using py_strip_spaces_left [of "''  ''"] by (simp add: isspace_space)
  have r1: "\<And>x. py_strip (x @ '' '') = py_strip x"
    using py_strip_spaces_right [of "'' ''"] by (simp add: isspace_space)
  have r2: "\<And>x. py_strip (x @ ''  '') = py_strip x"
    using py_strip_spaces_right [of "''  ''"] by (simp add: isspace_space)
  have r3: "\<And>x y. py_strip (x @ '' '' @ y @ '' '') = py_strip (x @ '' '' @ y)"
    using py_strip_spaces_right [of "'' ''"] by (metis append.assoc isspace_space list.set_cases set_ConsD empty_iff empty_set)
  show ?thesis
    using assms l1 l2 r1 r2 r3
    by (cases "d = []"; cases "m = []"; cases "s = []")
       (simp_all add: spec_record_text_def)
qed

lemma present_text_plain: "plain m \<Longrightarrow> present_text m = str_of m"
  by (auto simp: plain_def present_text_def)

lemma plain_empty_iff: "plain m \<Longrightarrow> str_of m = [] \<longleftrightarrow> \<not> truthy m"
  by (auto simp: plain_def)

text \<open>
  Where the flatteners do what the specification says. For records whose titles and
  workplaces are strings, \<open>flatten_experience\<close> is the comma-joined texts, in input order,
  of the records with a title or a workplace, each text the trimmed space-join of the
  present ones of the two. \<open>flatten_education\<close> is so for records whose degrees, majors
  and schools are strings and that have a major whenever they have a degree and a school.
\<close>

lemma flatten_experience_spec:
  assumes "\<forall>r \<in> set exps. plain (dict_get r ''title'' (JStr ''''))
                         \<and> plain (dict_get r ''work'' (JStr ''''))"
  shows "flatten_experience exps = spec_flatten [''title'', ''work''] exps"
proof -
  let ?kept = "[r \<leftarrow> exps. truthy (dict_get r ''title'' (JStr ''''))
                           \<or> truthy (dict_get r ''work'' (JStr ''''))]"
  have m: "map (\<lambda>r. py_strip (str_of (dict_get r ''title'' (JStr '''')) @ '' ''
                               @ str_of (dict_get r ''work'' (JStr '''')))) ?kept
         = map (\<lambda>r. spec_record_text
                      (map (\<lambda>k. present_text (dict_get r k (JStr ''''))) [''title'', ''work'']))
             ?kept"
    using assms by (intro map_cong refl) (simp add: present_text_plain experience_text_spec)
  have f: "?kept = [r \<leftarrow> exps. list_ex (\<lambda>k. truthy (dict_get r k (JStr ''''))) [''title'', ''work'']]"
    by (rule filter_cong) simp_all
  have "flatten_experience exps = py_join '', ''
          (map (\<lambda>r. py_strip (str_of (dict_get r ''title'' (JStr '''')) @ '' ''
                               @ str_of (dict_get r ''work'' (JStr '''')))) ?kept)"
    by (simp add: flatten_experience_def experience_loop_closed)
  also have "\<dots> = py_join '', ''
          (map (\<lambda>r. spec_record_text
                      (map (\<lambda>k. present_text (dict_get r k (JStr ''''))) [''title'', ''work'']))
             ?kept)"
    by (simp only: m)
  also have "\<dots> = spec_flatten [''title'', ''work''] exps"
    unfolding spec_flatten_def f by (rule refl)
  finally show ?thesis .
qed

lemma flatten_education_spec:
  assumes "\<forall>r \<in> set edus. plain (dict_get r ''degree'' (JStr ''''))
                         \<and> plain (dict_get r ''major'' (JStr ''''))
                         \<and> plain (dict_get r ''school'' (JStr ''''))"
    and "\<forall>r \<in> set edus.
           truthy (dict_get r ''degree'' (JStr '''')) \<and> truthy (dict_get r ''school'' (JStr ''''))
             \<longrightarrow> truthy (dict_get r ''major'' (JStr ''''))"
  shows "flatten_education edus = spec_flatten [''degree'', ''major'', ''school''] edus"
proof -
  let ?kept = "[r \<leftarrow> edus. truthy (dict_get r ''degree'' (JStr ''''))
                           \<or> truthy (dict_get r ''major'' (JStr ''''))
                           \<or> truthy (dict_get r ''school'' (JStr ''''))]"
  have m: "map (\<lambda>r. py_strip (str_of (dict_get r ''degree'' (JStr '''')) @ '' ''
                               @ str_of (dict_get r ''major'' (JStr '''')) @ '' ''
                               @ str_of (dict_get r ''school'' (JStr '''')))) ?kept
         = map (\<lambda>r. spec_record_text
                      (map (\<lambda>k. present_text (dict_get r k (JStr '''')))
                         [''degree'', ''major'', ''school'']))
             ?kept"
  proof (intro map_cong refl)
    fix r assume "r \<in> set ?kept"
    then have r: "r \<in> set edus" by simp
    let ?d = "dict_get r ''degree'' (JStr '''')"
    let ?m = "dict_get r ''major'' (JStr '''')"
    let ?s = "dict_get r ''school'' (JStr '''')"
    from assms(1) r have p: "plain ?d" "plain ?m" "plain ?s" by simp_all
    from assms(2) r have "truthy ?d \<and> truthy ?s \<longrightarrow> truthy ?m" by simp
    with p have c: "str_of ?m = [] \<longrightarrow> str_of ?d = [] \<or> str_of ?s = []"
      using plain_empty_iff by blast
    from education_text_spec [OF c] p
    show "py_strip (str_of ?d @ '' '' @ str_of ?m @ '' '' @ str_of ?s)
            = spec_record_text
                (map (\<lambda>k. present_text (dict_get r k (JStr '''')))
                   [''degree'', ''major'', ''school''])"
      by (simp add: present_text_plain)
  qed
  have f: "?kept = [r \<leftarrow> edus. list_ex (\<lambda>k. truthy (dict_get r k (JStr '''')))
                                [''degree'', ''major'', ''school'']]"
    by (rule filter_cong) simp_all
  have "flatten_education edus = py_join '', ''
          (map (\<lambda>r. py_strip (str_of (dict_get r ''degree'' (JStr '''')) @ '' ''
                               @ str_of (dict_get r ''major'' (JStr '''')) @ '' ''
                               @ str_of (dict_get r ''school'' (JStr '''')))) ?kept)"
    by (simp add: flatten_education_def education_loop_closed)
  also have "\<dots> = py_join '', ''
          (map (\<lambda>r. spec_record_text
                      (map (\<lambda>k. present_text (dict_get r k (JStr '''')))
                         [''degree'', ''major'', ''school'']))
             ?kept)"
    by (simp only: m)
  also have "\<dots> = spec_flatten [''degree'', ''major'', ''school''] edus"
    unfolding spec_flatten_def f by (rule refl)
  finally show ?thesis .
qed

text \<open>
  The records of the test suite, records with a field missing at an end, and a record
  with a title that is \<^verbatim>\<open>null\<close>, which is formatted as \<^verbatim>\<open>None\<close>.
\<close>

lemma flatten_examples:
  "flatten_experience
     [[(''title'', JStr ''Software Engineer''), (''work'', JStr ''Google''),
       (''time'', JOther True ''['2020-01', '2024-01']'')],
      [(''title'', JStr ''Intern''), (''work'', JStr ''Microsoft'')],
      [(''time'', JOther True ''['2019-06', '2019-09']'')],
      [(''work'', JStr ''Meta'')]]
     = ''Software Engineer Google, Intern Microsoft, Meta''
   \<and> flatten_education
       [[(''degree'', JStr ''PhD''), (''major'', JStr ''Computer Science''),
         (''school'', JStr ''MIT'')],
        [(''school'', JStr ''Stanford'')]]
     = ''PhD Computer Science MIT, Stanford''
   \<and> flatten_experience [[(''title'', JNull), (''work'', JStr ''Google'')]] = ''None Google''"
  by (simp add: flatten_experience_def flatten_education_def dict_get_def py_strip_def
      isspace_def)

text \<open>
  C4. The property fails on \<open>flatten_education\<close> for a record with a degree and a school
  and no major: the three fields are formatted with a space after the first and after
  the second, the absent one as the empty text, and trimming removes white space at the
  two ends only. The code gives \<^verbatim>\<open>PhD  MIT\<close>, with two spaces; the space-joined, trimmed
  text of the present fields is \<^verbatim>\<open>PhD MIT\<close>.
\<close>

theorem flatten_education_double_space:
  "flatten_education [[(''degree'', JStr ''PhD''), (''school'', JStr ''MIT'')]] = ''PhD  MIT''
   \<and> spec_flatten [''degree'', ''major'', ''school'']
        [[(''degree'', JStr ''PhD''), (''school'', JStr ''MIT'')]] = ''PhD MIT''"
  by (simp add: flatten_education_def spec_flatten_def spec_record_text_def present_text_def
      dict_get_def py_strip_def isspace_def)

section \<open>The folder loader\<close>

lemma load_json_readable: "readable jf \<longleftrightarrow> (\<exists>d. load_json jf = Inr d)"
  by (cases jf) (simp_all add: readable_def)

lemma extract_pdf_text_returns:
  "\<not> (hp \<and> pdf = PdfStatRaises) \<longleftrightarrow> (\<exists>t. extract_pdf_text hp pdf = Inr t)"
  by (cases pdf) (auto simp: extract_pdf_text_def Let_def split: option.splits)

lemma loader_folder_name:
  "load_candidate_from_folder hp now f = Inr c \<Longrightarrow> folder_name c = name f"
  by (auto simp: load_candidate_from_folder_def Let_def split: sum.splits)

lemma loader_returns:
  assumes "loadable hp f"
  shows "\<exists>c. load_candidate_from_folder hp now f = Inr c"
proof -
  from assms obtain b p t where "load_json (basic_info_json f) = Inr b"
    and "load_json (personal_info_json f) = Inr p"
    and "extract_pdf_text hp (cv_pdf f) = Inr t"
    unfolding loadable_def
    using load_json_readable [of "basic_info_json f"]
      load_json_readable [of "personal_info_json f"]
      extract_pdf_text_returns [of hp "cv_pdf f"] by blast
  then show ?thesis by (simp add: load_candidate_from_folder_def Let_def)
qed

lemma loader_returns_only_if:
  assumes "load_candidate_from_folder hp now f = Inr c"
  shows "loadable hp f"
proof -
  from assms obtain b p t where "load_json (basic_info_json f) = Inr b"
    and "load_json (personal_info_json f) = Inr p"
    and "extract_pdf_text hp (cv_pdf f) = Inr t"
    by (auto simp: load_candidate_from_folder_def Let_def split: sum.splits)
  then show ?thesis
    unfolding loadable_def
    using load_json_readable [of "basic_info_json f"]
      load_json_readable [of "personal_info_json f"]
      extract_pdf_text_returns [of hp "cv_pdf f"] by blast
qed

text \<open>
  Where the loader does what the specification says: with both files tolerated and a
  \<^verbatim>\<open>cv.pdf\<close> that can be examined it returns a candidate, and without a full name in the
  basic information the name is the folder name with every \<^verbatim>\<open>-\<close> replaced by a space.
\<close>

lemma loader_fallback_name:
  assumes "basic_info_json f \<in> {FileMissing, FileMalformed, FileJson None}
           \<or> (\<exists>d. basic_info_json f = FileJson (Some d) \<and> fullName d = None)"
    and "readable (personal_info_json f)"
    and "\<not> (hp \<and> cv_pdf f = PdfStatRaises)"
  shows "\<exists>c. load_candidate_from_folder hp now f = Inr c
           \<and> full_name c = py_replace (CHR ''-'') (CHR '' '') (name f)"
proof -
  from assms(2) obtain p where p: "load_json (personal_info_json f) = Inr p"
    using load_json_readable by blast
  from assms(3) obtain t where t: "extract_pdf_text hp (cv_pdf f) = Inr t"
    using extract_pdf_text_returns by blast
  from assms(1) obtain b where b: "load_json (basic_info_json f) = Inr b"
    and n: "fullName (case b of None \<Rightarrow> BasicData None None None None | Some d \<Rightarrow> d) = None"
    by auto
  show ?thesis
    using p b n t by (simp add: load_candidate_from_folder_def Let_def)
qed

text \<open>
  C5. The property fails where \<open>load_json\<close> lets an exception through: its handler names
  \<^verbatim>\<open>FileNotFoundError\<close> and \<^verbatim>\<open>JSONDecodeError\<close> only, so a \<^verbatim>\<open>basic_info.json\<close> that is
  not UTF-8 raises \<^verbatim>\<open>UnicodeDecodeError\<close> out of \<open>load_json\<close>, out of the loader, and
  out of the scan of a directory that holds the folder.
\<close>

theorem loader_raises_on_undecodable_json:
  "load_json (basic_info_json utf16_folder) = Inl UnicodeDecodeError
   \<and> load_candidate_from_folder True (1, 2) utf16_folder = Inl UnicodeDecodeError
   \<and> load_candidates_from_disk True (\<lambda>p. DirNode [Subdir utf16_folder]) ''applicants''
        (\<lambda>n. (1, 2)) [] None = Inl UnicodeDecodeError"
  by (simp add: utf16_folder_def test_folder_def load_candidate_from_folder_def
      load_candidates_from_disk_def)

section \<open>The whole-word filter of the search\<close>

lemma at_boundary_split: "at_boundary (a @ b) (length a) = word_boundary_between a b"
proof -
  have 1: "a \<noteq> [] \<Longrightarrow> (a @ b) ! (length a - 1) = last a"
    by (simp add: nth_append last_conv_nth)
  have 2: "b \<noteq> [] \<Longrightarrow> (a @ b) ! length a = hd b"
    by (simp add: hd_conv_nth nth_append)
  show ?thesis
    unfolding at_boundary_def word_boundary_between_def
    using 1 2 by (cases "a = []"; cases "b = []") simp_all
qed

lemma pattern_at_imp_occurrence:
  assumes "pattern_at q s i"
  shows "whole_word_occurrence q s"
proof -
  let ?before = "take i s"
  let ?found = "take (length q) (drop i s)"
  let ?after = "drop (length q) (drop i s)"
  from assms have b1: "at_boundary s i" and lit: "literal_at q s i"
    and b2: "at_boundary s (i + length q)"
    by (simp_all add: pattern_at_def)
  from lit have len: "i + length q \<le> length s"
    and eq: "map lower ?found = map lower q"
    by (simp_all add: literal_at_def)
  have s: "s = ?before @ ?found @ ?after" by (simp only: append_take_drop_id)
  have e1: "?before @ (?found @ ?after) = s" by (simp only: append_take_drop_id)
  have e2: "(?before @ ?found) @ ?after = s" by (simp only: append_assoc append_take_drop_id)
  have l1: "length ?before = i" using len by simp
  have l2: "length (?before @ ?found) = i + length q" using len by simp
  have "at_boundary s i = word_boundary_between ?before (?found @ ?after)"
    using at_boundary_split [of ?before "?found @ ?after"] unfolding e1 l1 .
  with b1 have w1: "word_boundary_between ?before (?found @ ?after)" by (rule iffD1 [rotated])
  have "at_boundary s (i + length q) = word_boundary_between (?before @ ?found) ?after"
    using at_boundary_split [of "?before @ ?found" ?after] unfolding e2 l2 .
  with b2 have w2: "word_boundary_between (?before @ ?found) ?after" by (rule iffD1 [rotated])
  from s eq w1 w2 show ?thesis
    unfolding whole_word_occurrence_def by blast
qed

lemma occurrence_imp_pattern_at:
  assumes "map lower found = map lower q"
    and "word_boundary_between before (found @ after)"
    and "word_boundary_between (before @ found) after"
  shows "pattern_at q (before @ found @ after) (length before)"
proof -
  from assms(1) have len: "length found = length q"
    by (rule map_eq_imp_length_eq)
  have b1: "at_boundary (before @ found @ after) (length before)"
    using assms(2) at_boundary_split [of before "found @ after"] by simp
  have "at_boundary ((before @ found) @ after) (length (before @ found))"
    using assms(3) at_boundary_split [of "before @ found" after] by simp
  then have b2: "at_boundary (before @ found @ after) (length before + length q)"
    using len by simp
  have lit: "literal_at q (before @ found @ after) (length before)"
    using assms(1) len by (simp add: literal_at_def)
  from b1 lit b2 show ?thesis by (simp add: pattern_at_def)
qed

lemma word_pattern_search_iff:
  "word_pattern_search q s \<longleftrightarrow> whole_word_occurrence q s"
proof
  assume "word_pattern_search q s"
  then obtain i where "pattern_at q s i"
    by (auto simp: word_pattern_search_def list_ex_iff)
  then show "whole_word_occurrence q s" by (rule pattern_at_imp_occurrence)
next
  assume "whole_word_occurrence q s"
  then obtain before found after where s: "s = before @ found @ after"
    and h: "map lower found = map lower q" "word_boundary_between before (found @ after)"
           "word_boundary_between (before @ found) after"
    unfolding whole_word_occurrence_def by blast
  from occurrence_imp_pattern_at [OF h] have "pattern_at q s (length before)"
    by (simp add: s)
  moreover have "length before \<in> set [0 ..< Suc (length s)]" by (simp add: s)
  ultimately show "word_pattern_search q s"
    unfolding word_pattern_search_def list_ex_iff by blast
qed

lemma no_occurrence_in_empty: "\<not> whole_word_occurrence q []"
  by (simp add: whole_word_occurrence_def word_boundary_between_def)

lemma field_matches_iff:
  "(case field of None \<Rightarrow> False | Some s \<Rightarrow> s \<noteq> [] \<and> word_pattern_search q s)
     \<longleftrightarrow> whole_word_in_field q field"
  using no_occurrence_in_empty [of q]
  by (auto simp: whole_word_in_field_def word_pattern_search_iff split: option.splits)

lemma matches_whole_word_iff: "matches_whole_word q c \<longleftrightarrow> retained q c"
  unfolding matches_whole_word_def search_fields_def retained_def
  by (simp only: list_ex_Cons_iff list_ex_Nil_iff field_matches_iff) blast

text \<open>
  The filter keeps, in the order of its input, the candidates with a field in which the
  query stands, up to the case of letters, between two word boundaries of the pattern.
\<close>

lemma refine_boundary_rule:
  "refine q candidates = [c \<leftarrow> candidates. retained q c]"
  by (simp add: refine_def matches_whole_word_iff)

lemma is_word_lower: "is_word (lower c) = is_word c"
  by (auto simp: is_word_def lower_def Let_def)

lemma lower_eq_is_word: "lower a = lower b \<Longrightarrow> is_word a = is_word b"
  by (metis is_word_lower)

text \<open>
  For a query that begins and ends with a word character, the two word boundaries say
  that the match has no word character next to it: for such a query the filter keeps
  exactly the candidates with a whole-word match in one of the five fields.
\<close>

lemma whole_word_plain_reading:
  assumes "q \<noteq> []" "is_word (hd q)" "is_word (last q)"
  shows "whole_word_occurrence q s \<longleftrightarrow> whole_word_match q s"
proof -
  have k: "found \<noteq> [] \<and> is_word (hd found) \<and> is_word (last found)"
    if "map lower found = map lower q" for found
  proof -
    from that assms(1) have ne: "found \<noteq> []" by auto
    from that have "lower (hd found) = lower (hd q)"
      using ne assms(1) by (metis hd_map)
    moreover from that have "lower (last found) = lower (last q)"
      using ne assms(1) by (metis last_map)
    ultimately show ?thesis
      using ne assms(2,3) lower_eq_is_word by blast
  qed
  have "word_boundary_between before (found @ after) \<and> word_boundary_between (before @ found) after
          \<longleftrightarrow> (before = [] \<or> \<not> is_word (last before)) \<and> (after = [] \<or> \<not> is_word (hd after))"
    if "map lower found = map lower q" for before found after
    using k [OF that] by (auto simp: word_boundary_between_def)
  then show ?thesis unfolding whole_word_occurrence_def whole_word_match_def by blast
qed

lemma refine_word_query:
  assumes "q \<noteq> []" "is_word (hd q)" "is_word (last q)"
  shows "refine q candidates = [c \<leftarrow> candidates. matches_some_field q c]"
proof -
  have "whole_word_in_field q field = whole_word_match_in_field q field" for field
    using whole_word_plain_reading [OF assms]
    by (simp add: whole_word_in_field_def whole_word_match_in_field_def split: option.splits)
  then have "retained q c = matches_some_field q c" for c
    by (simp add: retained_def matches_some_field_def)
  then show ?thesis by (simp add: refine_boundary_rule)
qed

text \<open>The examples of the specification, on rows of the test suite.\<close>

lemma refine_examples:
  "refine ''meta'' [bob_jones, stored_candidate] = [bob_jones]
   \<and> refine ''eta'' [bob_jones, stored_candidate] = []"
  by code_simp

text \<open>
  A query that ends with a character that is not a word character needs a word character
  after it to match, and one that begins with such a character needs a word character
  before it.
\<close>

lemma symbol_query_examples:
  "\<not> word_pattern_search ''c++'' ''knows C++ well''
   \<and> word_pattern_search ''c++'' ''C++11''
   \<and> word_pattern_search ''+'' ''a+b''"
  by code_simp

text \<open>
  C2. The property fails for a query that ends with a character that is not a word
  character. The title of the candidate is \<^verbatim>\<open>C++\<close> and the query is \<^verbatim>\<open>C++\<close>: the query
  matches the whole title, with the ends of the text on both sides, and the filter drops
  the candidate, because the pattern asks for a word boundary after the last \<^verbatim>\<open>+\<close> and
  there is none between a character that is not a word character and the end of the text.
\<close>

theorem refine_drops_symbol_query:
  "title cpp_candidate = Some ''C++''
   \<and> matches_some_field ''C++'' cpp_candidate
   \<and> refine ''C++'' [cpp_candidate] = []"
proof -
  have t: "title cpp_candidate = Some ''C++''" by (simp add: cpp_candidate_def)
  have "''C++'' = [] @ ''C++'' @ [] \<and> map lower ''C++'' = map lower ''C++''
        \<and> (([] :: string) = [] \<or> \<not> is_word (last []))
        \<and> (([] :: string) = [] \<or> \<not> is_word (hd []))"
    by simp
  then have "whole_word_match ''C++'' ''C++''"
    unfolding whole_word_match_def by blast
  then have m: "matches_some_field ''C++'' cpp_candidate"
    by (simp add: matches_some_field_def whole_word_match_in_field_def t)
  have r: "refine ''C++'' [cpp_candidate] = []" by code_simp
  from t m r show ?thesis by simp
qed

section \<open>The disk scan\<close>

lemma find_folder_None:
  "find (\<lambda>c. folder_name c = n) st = None \<longleftrightarrow> n \<notin> folder_name ` set st"
  by (auto simp: find_None_iff)

lemma session_add_append: "\<exists>row. session_add st c = st @ [row] \<and> folder_name row = folder_name c"
  by (simp add: session_add_def)

lemma scan_loop_all_known:
  "\<forall>f \<in> set (subdirs es). name f \<in> folder_name ` set st \<Longrightarrow>
     scan_loop hp clock (st, l, s) es = Inr (st, l, s + length (subdirs es))"
proof (induction es arbitrary: s)
  case Nil
  show ?case by simp
next
  case (Cons e es)
  show ?case
  proof (cases e)
    case (Other n)
    with Cons show ?thesis by simp
  next
    case (Subdir f)
    with Cons.prems have "name f \<in> folder_name ` set st" by simp
    then obtain existing where "find (\<lambda>c. folder_name c = name f) st = Some existing"
      using find_folder_None [of "name f" st] by (cases "find (\<lambda>c. folder_name c = name f) st") auto
    moreover from Cons.prems Subdir
    have "scan_loop hp clock (st, l, s + 1) es = Inr (st, l, s + 1 + length (subdirs es))"
      by (intro Cons.IH) simp
    ultimately show ?thesis using Subdir by simp
  qed
qed

lemma scan_loop_result:
  assumes "distinct (map name (subdirs es))"
    and "\<forall>f \<in> set (subdirs es). name f \<notin> folder_name ` set st \<longrightarrow> loadable hp f"
  shows "\<exists>added.
           scan_loop hp clock (st, l, s) es =
             Inr (st @ added, l + length (new_folders st es), s + length (known_folders st es))
           \<and> map folder_name added = map name (new_folders st es)"
  using assms
proof (induction es arbitrary: st l s)
  case Nil
  show ?case by (simp add: new_folders_def known_folders_def)
next
  case (Cons e es)
  show ?case
  proof (cases e)
    case (Other n)
    with Cons.prems have "distinct (map name (subdirs es))"
      and "\<forall>f \<in> set (subdirs es). name f \<notin> folder_name ` set st \<longrightarrow> loadable hp f"
      by simp_all
    from Cons.IH [OF this, of l s] Other show ?thesis
      by (simp add: new_folders_def known_folders_def)
  next
    case (Subdir f)
    from Cons.prems Subdir have d: "distinct (map name (subdirs es))"
      and fresh0: "name f \<notin> name ` set (subdirs es)"
      and ld: "\<forall>g \<in> set (subdirs es). name g \<notin> folder_name ` set st \<longrightarrow> loadable hp g"
      by simp_all
    from fresh0 have fresh: "\<forall>g \<in> set (subdirs es). name g \<noteq> name f"
      by (metis imageI)
    show ?thesis
    proof (cases "name f \<in> folder_name ` set st")
      case True
      then obtain existing where ex: "find (\<lambda>c. folder_name c = name f) st = Some existing"
        using find_folder_None [of "name f" st]
        by (cases "find (\<lambda>c. folder_name c = name f) st") auto
      from Cons.IH [OF d ld, of l "s + 1"] obtain added where
        "scan_loop hp clock (st, l, s + 1) es =
           Inr (st @ added, l + length (new_folders st es), s + 1 + length (known_folders st es))"
        and "map folder_name added = map name (new_folders st es)" by blast
      with True ex Subdir show ?thesis
        by (simp add: new_folders_def known_folders_def)
    next
      case False
      then have nf: "find (\<lambda>c. folder_name c = name f) st = None"
        using find_folder_None by blast
      from Cons.prems(2) Subdir False have "loadable hp f" by simp
      then obtain c where c: "load_candidate_from_folder hp (clock (name f)) f = Inr c"
        using loader_returns by blast
      then have cn: "folder_name c = name f" by (rule loader_folder_name)
      obtain row where row: "session_add st c = st @ [row]" "folder_name row = name f"
        using session_add_append [of st c] cn by auto
      let ?st1 = "st @ [row]"
      have known1: "folder_name ` set ?st1 = insert (name f) (folder_name ` set st)"
        using row(2) by simp
      have same: "\<And>g. g \<in> set (subdirs es) \<Longrightarrow>
                   name g \<in> folder_name ` set ?st1 \<longleftrightarrow> name g \<in> folder_name ` set st"
        using fresh known1 by auto
      have n1: "new_folders ?st1 es = new_folders st es"
        unfolding new_folders_def by (rule filter_cong) (use same in auto)
      have k1: "known_folders ?st1 es = known_folders st es"
        unfolding known_folders_def by (rule filter_cong) (use same in auto)
      have ld1: "\<forall>g \<in> set (subdirs es). name g \<notin> folder_name ` set ?st1 \<longrightarrow> loadable hp g"
        using ld same by blast
      from Cons.IH [OF d ld1, of "l + 1" s] obtain added where
        r: "scan_loop hp clock (?st1, l + 1, s) es =
           Inr (?st1 @ added, l + 1 + length (new_folders ?st1 es),
                s + length (known_folders ?st1 es))"
        and m: "map folder_name added = map name (new_folders ?st1 es)" by blast
      have nf_cons: "new_folders st (Subdir f # es) = f # new_folders st es"
        using False by (simp add: new_folders_def)
      have kf_cons: "known_folders st (Subdir f # es) = known_folders st es"
        using False by (simp add: known_folders_def)
      have "scan_loop hp clock (st, l, s) (Subdir f # es) =
              Inr (st @ (row # added), l + length (new_folders st (Subdir f # es)),
                   s + length (known_folders st (Subdir f # es)))"
        using nf c row(1) r by (simp add: n1 k1 nf_cons kf_cons)
      moreover have "map folder_name (row # added) = map name (new_folders st (Subdir f # es))"
        using m row(2) by (simp add: n1 nf_cons)
      ultimately show ?thesis unfolding Subdir by blast
    qed
  qed
qed

lemma subdirs_insort_set:
  "set (subdirs (insort_key k e es)) = set (subdirs (e # es))"
  by (induction es rule: subdirs.induct) (cases e; auto)+

lemma subdirs_insort_length:
  "length (filter P (subdirs (insort_key k e es))) = length (filter P (subdirs (e # es)))"
  by (induction es rule: subdirs.induct) (cases e; auto)+

lemma subdirs_sort_set: "set (subdirs (sort_key k es)) = set (subdirs es)"
proof (induction es)
  case Nil
  show ?case by simp
next
  case (Cons e es)
  have "set (subdirs (sort_key k (e # es))) = set (subdirs (e # sort_key k es))"
    by (simp add: subdirs_insort_set)
  also have "\<dots> = set (subdirs (e # es))"
    using Cons.IH by (cases e) simp_all
  finally show ?case .
qed

lemma subdirs_sort_length:
  "length (filter P (subdirs (sort_key k es))) = length (filter P (subdirs es))"
proof (induction es)
  case Nil
  show ?case by simp
next
  case (Cons e es)
  have "length (filter P (subdirs (sort_key k (e # es))))
          = length (filter P (subdirs (e # sort_key k es)))"
    by (simp add: subdirs_insort_length)
  also have "\<dots> = length (filter P (subdirs (e # es)))"
    using Cons.IH by (cases e) simp_all
  finally show ?case .
qed

lemma subdirs_sort_count: "length (subdirs (sort_key k es)) = length (subdirs es)"
  using subdirs_sort_length [of "\<lambda>f. True" k es] by simp

lemma subdirs_names: "name ` set (subdirs es) \<subseteq> entry_name ` set es"
  by (induction es rule: subdirs.induct) auto

lemma distinct_subdirs:
  "distinct (map entry_name es) \<Longrightarrow> distinct (map name (subdirs es))"
proof (induction es rule: subdirs.induct)
  case 1
  show ?case by simp
next
  case (2 n es)
  then show ?case by simp
next
  case (3 f es)
  then have "name f \<notin> entry_name ` set es" by simp
  with subdirs_names [of es] have "name f \<notin> name ` set (subdirs es)" by blast
  with 3 show ?case by simp
qed

lemma distinct_sorted_entries:
  "distinct (map entry_name es) \<Longrightarrow> distinct (map entry_name (sort_key entry_name es))"
  by (simp add: distinct_map)

lemma new_folders_sort:
  "length (new_folders st (sort_key k es)) = length (new_folders st es)"
  "set (new_folders st (sort_key k es)) = set (new_folders st es)"
  by (simp_all add: new_folders_def subdirs_sort_length subdirs_sort_set)

lemma known_folders_sort:
  "length (known_folders st (sort_key k es)) = length (known_folders st es)"
  by (simp add: known_folders_def subdirs_sort_length)

text \<open>
  C3, as amended. Let the applicants path be a directory, each name once in its listing,
  and let the loader return on every folder of it that is new to the table. Then the scan
  returns; it
  appends one row for each new folder and none for a folder whose name the table has,
  and prints the number of new folders as loaded and the number of the others as
  skipped (so \<open>N\<close> and \<open>0\<close> when none of the \<open>N\<close> folders is in the table). A second
  scan of the same directory returns the table of the first unchanged and prints \<open>0\<close>
  loaded and \<open>N\<close> skipped.
\<close>

theorem disk_scan_idempotent:
  assumes dir: "fs (case ap of Some p \<Rightarrow> p | None \<Rightarrow> dp) = DirNode entries"
    and names: "distinct (map entry_name entries)"
    and loads: "\<forall>f \<in> set (new_folders st entries). loadable hp f"
  shows "\<exists>added.
     load_candidates_from_disk hp fs dp clock st ap =
       Inr (st @ added, [Loaded_skipped (length (new_folders st entries))
                           (length (known_folders st entries))])
     \<and> length added = length (new_folders st entries)
     \<and> distinct (map folder_name added)
     \<and> folder_name ` set added = name ` set (new_folders st entries)
     \<and> load_candidates_from_disk hp' fs dp clock' (st @ added) ap =
       Inr (st @ added, [Loaded_skipped 0 (length (subdirs entries))])
     \<and> length (new_folders st entries) + length (known_folders st entries)
         = length (subdirs entries)
     \<and> (known_folders st entries = [] \<longrightarrow>
          load_candidates_from_disk hp fs dp clock st ap =
            Inr (st @ added, [Loaded_skipped (length (subdirs entries)) 0]))"
proof -
  let ?sorted = "sort_key entry_name entries"
  have d: "distinct (map name (subdirs ?sorted))"
    using names by (intro distinct_subdirs distinct_sorted_entries)
  have ld: "\<forall>f \<in> set (subdirs ?sorted). name f \<notin> folder_name ` set st \<longrightarrow> loadable hp f"
    using loads by (simp add: new_folders_def subdirs_sort_set)
  from scan_loop_result [OF d ld, of clock 0 0] obtain added where
    run: "scan_loop hp clock (st, 0, 0) ?sorted =
            Inr (st @ added, length (new_folders st ?sorted), length (known_folders st ?sorted))"
    and rows: "map folder_name added = map name (new_folders st ?sorted)"
    by auto
  have first: "load_candidates_from_disk hp fs dp clock st ap =
       Inr (st @ added, [Loaded_skipped (length (new_folders st entries))
                           (length (known_folders st entries))])"
    using dir run by (simp add: load_candidates_from_disk_def new_folders_sort known_folders_sort)
  have len: "length added = length (new_folders st entries)"
    using arg_cong [OF rows, of length] by (simp add: new_folders_sort)
  have "distinct (map name (new_folders st ?sorted))"
    unfolding new_folders_def using d by (rule distinct_map_filter)
  then have dist: "distinct (map folder_name added)" by (simp add: rows)
  have "set (map folder_name added) = set (map name (new_folders st ?sorted))"
    by (simp only: rows)
  then have img: "folder_name ` set added = name ` set (new_folders st entries)"
    by (simp add: new_folders_sort)
  have known: "\<forall>f \<in> set (subdirs ?sorted). name f \<in> folder_name ` set (st @ added)"
  proof
    fix f assume f: "f \<in> set (subdirs ?sorted)"
    show "name f \<in> folder_name ` set (st @ added)"
    proof (cases "name f \<in> folder_name ` set st")
      case True
      then show ?thesis by auto
    next
      case False
      with f have "f \<in> set (new_folders st entries)"
        by (simp add: new_folders_def subdirs_sort_set)
      then have "name f \<in> folder_name ` set added" using img by blast
      then show ?thesis by auto
    qed
  qed
  have "scan_loop hp' clock' (st @ added, 0, 0) ?sorted =
          Inr (st @ added, 0, 0 + length (subdirs ?sorted))"
    using known by (rule scan_loop_all_known)
  then have second: "load_candidates_from_disk hp' fs dp clock' (st @ added) ap =
       Inr (st @ added, [Loaded_skipped 0 (length (subdirs entries))])"
    using dir by (simp add: load_candidates_from_disk_def subdirs_sort_count)
  have total: "length (new_folders st entries) + length (known_folders st entries)
                 = length (subdirs entries)"
    unfolding new_folders_def known_folders_def
    using sum_length_filter_compl [of "\<lambda>f. name f \<in> folder_name ` set st" "subdirs entries"]
    by simp
  have fresh: "load_candidates_from_disk hp fs dp clock st ap =
            Inr (st @ added, [Loaded_skipped (length (subdirs entries)) 0])"
    if "known_folders st entries = []"
    using first total that by simp
  from first len dist img second total fresh show ?thesis by blast
qed

theorem disk_scan_idempotent_witness:
  "\<exists>added.
     load_candidates_from_disk True applicants_fs ''applicants'' (\<lambda>n. (1, 2)) [] None
       = Inr (added, [Loaded_skipped 2 0])
     \<and> length added = 2
     \<and> load_candidates_from_disk True applicants_fs ''applicants'' (\<lambda>n. (3, 4)) added None
       = Inr (added, [Loaded_skipped 0 2])"
proof -
  have dir: "applicants_fs (case None of Some p \<Rightarrow> p | None \<Rightarrow> ''applicants'')
               = DirNode applicants_dir"
    by (simp add: applicants_fs_def)
  have names: "distinct (map entry_name applicants_dir)"
    by (simp add: applicants_dir_def test_folder_def missing_files_folder_def)
  have new: "new_folders [] applicants_dir = [test_folder, missing_files_folder]"
    by (simp add: new_folders_def applicants_dir_def)
  have known: "known_folders [] applicants_dir = []"
    by (simp add: known_folders_def applicants_dir_def)
  have count: "length (subdirs applicants_dir) = 2"
    by (simp add: applicants_dir_def)
  have loads: "\<forall>f \<in> set (new_folders [] applicants_dir). loadable True f"
    by (simp add: new loadable_def readable_def test_folder_def missing_files_folder_def)
  have n2: "length (new_folders [] applicants_dir) = 2" by (simp add: new)
  have k0: "length (known_folders [] applicants_dir) = 0" by (simp add: known)
  from disk_scan_idempotent
         [where fs = applicants_fs and ap = None and dp = "''applicants''"
            and entries = applicants_dir and st = "[]" and hp = True and hp' = True
            and clock = "\<lambda>n. (1, 2)" and clock' = "\<lambda>n. (3, 4)", OF dir names loads]
  obtain added where
    "load_candidates_from_disk True applicants_fs ''applicants'' (\<lambda>n. (1, 2)) [] None
       = Inr ([] @ added, [Loaded_skipped (length (new_folders [] applicants_dir))
                             (length (known_folders [] applicants_dir))])"
    and "length added = length (new_folders [] applicants_dir)"
    and "load_candidates_from_disk True applicants_fs ''applicants'' (\<lambda>n. (3, 4))
           ([] @ added) None
       = Inr ([] @ added, [Loaded_skipped 0 (length (subdirs applicants_dir))])"
    by blast
  then have
    "load_candidates_from_disk True applicants_fs ''applicants'' (\<lambda>n. (1, 2)) [] None
       = Inr (added, [Loaded_skipped 2 0])
     \<and> length added = 2
     \<and> load_candidates_from_disk True applicants_fs ''applicants'' (\<lambda>n. (3, 4)) added None
       = Inr (added, [Loaded_skipped 0 2])"
    unfolding n2 k0 count append_Nil by (intro conjI)
  then show ?thesis by (rule exI)
qed

lemma sorted_applicants_dir:
  "sort_key entry_name applicants_dir
     = [Subdir missing_files_folder, Other ''README.txt'', Subdir test_folder]"
  by (simp add: applicants_dir_def missing_files_folder_def test_folder_def
      less_eq_char_def less_char_def)

text \<open>
  C3, the counterexample: with the folder \<^verbatim>\<open>Test-Candidate\<close> in the table, the first scan
  of a directory that holds it and one new folder prints 1 loaded and 1 skipped, and the
  second prints 0 loaded and 2 skipped: the first scan skips a folder, and the number it
  loads is not the number the second skips.
\<close>

theorem scan_counts_known_folders_as_skipped:
  "load_candidates_from_disk True applicants_fs ''applicants'' fixed_clock
       [stored_candidate] None
     = Inr ([stored_candidate, jane_doe_row], [Loaded_skipped 1 1])
   \<and> load_candidates_from_disk True applicants_fs ''applicants'' fixed_clock
       [stored_candidate, jane_doe_row] None
     = Inr ([stored_candidate, jane_doe_row], [Loaded_skipped 0 2])"
  by (simp add: load_candidates_from_disk_def applicants_fs_def sorted_applicants_dir
      fixed_clock_def stored_candidate_def test_candidate_def jane_doe_row_def
      missing_files_folder_def test_folder_def load_candidate_from_folder_def Let_def
      filter_urls_def flatten_experience_def flatten_education_def extract_pdf_text_def
      py_replace_def session_add_def next_id_def)

end
